theory Spec2Isabelle
  imports Main "HOL-Library.Sublist" "HOL-Library.Char_ord" "HOL-Library.List_Lexorder"
    "HOL-Library.AList"
begin

section \<open>Python string primitives\<close>

text \<open>
  Strings are lists of characters. The model covers ASCII text: \<open>str.lower\<close>,
  \<open>str.upper\<close>, \<open>str.strip\<close> and the regular-expression class \<open>\s\<close> act on the
  ASCII letters and on the ASCII characters for which \<open>str.isspace\<close> holds; every other
  character is left alone and is not white space.
\<close>

text \<open>
  A character is its eight bits, lowest first. The capital letters are the codes
  \<open>0x41\<close> to \<open>0x5A\<close>, the small letters \<open>0x61\<close> to \<open>0x7A\<close>; the two cases of a
  letter differ in the bit of value \<open>0x20\<close>.
\<close>

fun lower_char :: "char \<Rightarrow> char" where
  "lower_char (Char b0 b1 b2 b3 b4 b5 b6 b7) =
     (if \<not> b7 \<and> b6 \<and> \<not> b5 \<and> (b0 \<or> b1 \<or> b2 \<or> b3 \<or> b4)
           \<and> \<not> (b4 \<and> b3 \<and> (b2 \<or> (b1 \<and> b0)))
      then Char b0 b1 b2 b3 b4 True b6 b7
      else Char b0 b1 b2 b3 b4 b5 b6 b7)"

fun upper_char :: "char \<Rightarrow> char" where
  "upper_char (Char b0 b1 b2 b3 b4 b5 b6 b7) =
     (if \<not> b7 \<and> b6 \<and> b5 \<and> (b0 \<or> b1 \<or> b2 \<or> b3 \<or> b4)
           \<and> \<not> (b4 \<and> b3 \<and> (b2 \<or> (b1 \<and> b0)))
      then Char b0 b1 b2 b3 b4 False b6 b7
      else Char b0 b1 b2 b3 b4 b5 b6 b7)"

definition lower :: "string \<Rightarrow> string" where
  "lower s = map lower_char s"

definition upper :: "string \<Rightarrow> string" where
  "upper s = map upper_char s"

definition is_space :: "char \<Rightarrow> bool" where
  "is_space c = (c \<in> set [CHR 0x09, CHR 0x0A, CHR 0x0B, CHR 0x0C, CHR 0x0D,
                           CHR 0x1C, CHR 0x1D, CHR 0x1E, CHR 0x1F, CHR '' ''])"

definition lstrip :: "string \<Rightarrow> string" where
  "lstrip s = dropWhile is_space s"

definition rstrip :: "string \<Rightarrow> string" where
  "rstrip s = rev (dropWhile is_space (rev s))"

definition strip :: "string \<Rightarrow> string" where
  "strip s = rstrip (lstrip s)"

text \<open>Python's \<open>k in s\<close> on strings: \<open>k\<close> occurs in \<open>s\<close> as a contiguous block.\<close>

definition contains :: "string \<Rightarrow> string \<Rightarrow> bool" where
  "contains k s = sublist k s"

section \<open>Conversation memory (memory.py)\<close>

text \<open>
  A \<open>datetime\<close> is a number of microseconds, a \<open>timedelta\<close> a difference of two.
  Every call of \<open>datetime.now()\<close> is a parameter of the operation that makes it, in the
  order of the calls.
\<close>

type_synonym time = int

record message =
  role :: string
  content :: string
  timestamp :: time

record session =
  history :: "message list"
  created :: time
  last_accessed :: time

record conversation_memory =
  sessions :: "string \<rightharpoonup> session"
  ttl :: int

definition ConversationMemory :: "int \<Rightarrow> conversation_memory" where
  "ConversationMemory ttl_minutes = \<lparr>sessions = Map.empty, ttl = ttl_minutes * 60000000\<rparr>"

definition clean_expired :: "time \<Rightarrow> conversation_memory \<Rightarrow> conversation_memory" where
  "clean_expired now m =
     m\<lparr>sessions := (\<lambda>sid. case sessions m sid of
                        None \<Rightarrow> None
                      | Some d \<Rightarrow> if now - last_accessed d > ttl m then None else Some d)\<rparr>"

definition add_message ::
  "time \<Rightarrow> time \<Rightarrow> time \<Rightarrow> time \<Rightarrow> string \<Rightarrow> string \<Rightarrow> string \<Rightarrow>
     conversation_memory \<Rightarrow> conversation_memory" where
  "add_message now_sweep now_created now_stamp now_access sid r c m =
     (let m1 = clean_expired now_sweep m;
          d = (case sessions m1 sid of
                 None \<Rightarrow> \<lparr>history = [], created = now_created, last_accessed = now_access\<rparr>
               | Some d0 \<Rightarrow> d0);
          d1 = d\<lparr>history := history d @ [\<lparr>role = r, content = c, timestamp = now_stamp\<rparr>]\<rparr>
      in m1\<lparr>sessions := (sessions m1)(sid \<mapsto> d1\<lparr>last_accessed := now_access\<rparr>)\<rparr>)"

text \<open>The slice \<open>xs[-n:]\<close> for \<open>n \<ge> 0\<close>; \<open>xs[-0:]\<close> is the whole list.\<close>

definition last_slice :: "nat \<Rightarrow> 'a list \<Rightarrow> 'a list" where
  "last_slice n xs = (if n = 0 then xs else drop (length xs - n) xs)"

definition get_history ::
  "time \<Rightarrow> string \<Rightarrow> nat \<Rightarrow> conversation_memory \<Rightarrow> message list \<times> conversation_memory" where
  "get_history now sid max_messages m =
     (let m1 = clean_expired now m
      in case sessions m1 sid of
           None \<Rightarrow> ([], m1)
         | Some d \<Rightarrow> (last_slice max_messages (history d), m1))"

definition clear_session :: "string \<Rightarrow> conversation_memory \<Rightarrow> conversation_memory" where
  "clear_session sid m = m\<lparr>sessions := (sessions m)(sid := None)\<rparr>"

text \<open>
  A run of operations on the memory, each with its clock readings: history lookups, and
  messages added to sessions.
\<close>

datatype memory_op =
    Lookup time string nat
  | Add time time time time string string string
  | Clear string

fun op_key :: "memory_op \<Rightarrow> string" where
  "op_key (Lookup now sid n) = sid"
| "op_key (Add t1 t2 t3 t4 sid r c) = sid"
| "op_key (Clear sid) = sid"

fun is_add :: "memory_op \<Rightarrow> bool" where
  "is_add (Add t1 t2 t3 t4 sid r c) = True"
| "is_add other = False"

fun apply_op :: "memory_op \<Rightarrow> conversation_memory \<Rightarrow> conversation_memory" where
  "apply_op (Lookup now sid n) m = snd (get_history now sid n m)"
| "apply_op (Add t1 t2 t3 t4 sid r c) m = add_message t1 t2 t3 t4 sid r c m"
| "apply_op (Clear sid) m = clear_session sid m"

definition apply_ops :: "memory_op list \<Rightarrow> conversation_memory \<Rightarrow> conversation_memory" where
  "apply_ops ops m = fold apply_op ops m"

text \<open>The messages a run of operations adds under a key, and the messages stored under it.\<close>

fun added_by :: "string \<Rightarrow> memory_op \<Rightarrow> message list" where
  "added_by sid (Add t1 t2 t3 t4 sid' r c) =
     (if sid' = sid then [\<lparr>role = r, content = c, timestamp = t3\<rparr>] else [])"
| "added_by sid other = []"

definition added_under :: "string \<Rightarrow> memory_op list \<Rightarrow> message list" where
  "added_under sid ops = concat (map (added_by sid) ops)"

definition stored :: "conversation_memory \<Rightarrow> string \<Rightarrow> message set" where
  "stored m sid = (case sessions m sid of None \<Rightarrow> {} | Some d \<Rightarrow> set (history d))"

section \<open>Values exchanged with the collaborators\<close>

text \<open>
  A database scalar after \<open>execute_query\<close> has serialised it: \<open>NULL\<close>, an integer or a
  text (dates and times have become their ISO text). A row is a Python \<open>dict\<close> from
  column name to scalar, kept in insertion order.
\<close>

datatype scalar = SNull | SInt int | SStr string

type_synonym row = "(string \<times> scalar) list"

text \<open>Python truth value of a scalar.\<close>

fun truthy :: "scalar \<Rightarrow> bool" where
  "truthy SNull = False"
| "truthy (SInt n) = (n \<noteq> 0)"
| "truthy (SStr s) = (s \<noteq> [])"

text \<open>
  What \<open>json.loads\<close> returns. \<open>JFloat m e\<close> is the finite float \<open>m * 2 ^ e\<close>. An
  object is a \<open>dict\<close> in insertion order.
\<close>

datatype json =
    JNull
  | JBool bool
  | JInt int
  | JFloat int int
  | JStr string
  | JArr "json list"
  | JObj "(string \<times> json) list"

fun json_truthy :: "json \<Rightarrow> bool" where
  "json_truthy JNull = False"
| "json_truthy (JBool b) = b"
| "json_truthy (JInt n) = (n \<noteq> 0)"
| "json_truthy (JFloat m e) = (m \<noteq> 0)"
| "json_truthy (JStr s) = (s \<noteq> [])"
| "json_truthy (JArr xs) = (xs \<noteq> [])"
| "json_truthy (JObj kvs) = (kvs \<noteq> [])"

text \<open>
  Exceptions, with the text \<open>str(e)\<close> gives. \<open>JSONDecodeError\<close> and \<open>RecursionError\<close>
  are the two exceptions \<open>json.loads\<close> raises on a text: the first on a text that is
  no JSON, the second on a text nested deeper than the interpreter's recursion limit
  (so on a long run of \<open>[\<close>, before the parser can reject it). \<open>Raised\<close> is an
  exception of a collaborator (database driver, embedding model, vector index) with its
  text.
\<close>

datatype exn =
    KeyError string
  | TypeError string
  | AttributeError string
  | JSONDecodeError string
  | RecursionError string
  | Raised string

definition quote :: char where
  "quote = CHR 0x27"

fun str_exn :: "exn \<Rightarrow> string" where
  "str_exn (KeyError k) = quote # k @ [quote]"
| "str_exn (TypeError t) = t"
| "str_exn (AttributeError t) = t"
| "str_exn (JSONDecodeError t) = t"
| "str_exn (RecursionError t) = t"
| "str_exn (Raised t) = t"

text \<open>The summary \<open>_enrich_results\<close> returns: the empty \<open>dict\<close> or the four entries.\<close>

datatype enrichment =
    NoEnrichment
  | Enrichment (source_files: "scalar list") (top_damage: "string \<times> nat")
      (top_inspector: "string \<times> nat") (record_count: nat)

text \<open>
  The prompts of \<open>LLMInterface\<close> are fixed templates filled with the arguments of the
  call, so a request to the oracle is given by the method and the arguments that reach the
  template (the schema is a constant).
\<close>

datatype llm_request =
    RouteRequest string
  | SqlRequest string "row list option"
  | FormatRequest string "row list" enrichment "message list option"

text \<open>What one call of \<open>process_query\<close> asks of its collaborators, in order.\<close>

datatype event =
    LLMCall llm_request
  | EmbedCall string
  | DBCall string "scalar list option"

text \<open>
  The database driver's answer to one \<open>execute_query\<close>: \<open>conn.cursor()\<close> raises (outside
  the \<open>try\<close>); \<open>execute\<close> or \<open>fetchall\<close> raises and the handler's rollback succeeds; the
  handler's rollback raises too; the statement has no result description; or it returns the
  column names and the fetched tuples. A driver value is a scalar or a date or time, given
  by its \<open>isoformat()\<close>.
\<close>

datatype dbvalue = DScalar scalar | DDate string

datatype db_outcome =
    CursorRaises exn
  | ExecuteRaises exn
  | RollbackRaises exn
  | NoDescription
  | Fetched "string list" "dbvalue list list"

text \<open>
  The collaborators during one call of \<open>process_query\<close>: \<open>generate\<close> is
  \<open>LLMInterface.generate\<close> (the HTTP call, \<open>None\<close> on any failure); \<open>json_loads\<close> is
  the standard library's parser; \<open>semantic_ids\<close> is the embedding, the index search and
  the lookup of the identifiers; \<open>db_run\<close> is the driver; the remaining fields are the
  readings of \<open>datetime.now()\<close>: in \<open>get_history\<close>, and in \<open>add_message\<close> for the sweep,
  the creation of a session, the message and the access stamp.
\<close>

record env =
  generate :: "llm_request \<Rightarrow> string option"
  json_loads :: "string \<Rightarrow> exn + json"
  semantic_ids :: "string \<Rightarrow> exn + scalar list"
  db_run :: "string \<Rightarrow> scalar list option \<Rightarrow> db_outcome"
  now_history :: time
  now_sweep :: time
  now_created :: time
  now_stamp :: time
  now_access :: time

section \<open>Database access (database.py)\<close>

fun serialise :: "dbvalue \<Rightarrow> scalar" where
  "serialise (DScalar v) = v"
| "serialise (DDate isoformat) = SStr isoformat"

text \<open>\<open>row_dict[col] = value\<close> for the columns in order; a repeated name keeps its place.\<close>

definition row_dict :: "string list \<Rightarrow> dbvalue list \<Rightarrow> row" where
  "row_dict columns tuple =
     fold (\<lambda>(col, v) d. AList.update col (serialise v) d) (zip columns tuple) []"

text \<open>
  \<open>DatabaseManager.execute_query\<close>: \<open>Inl\<close> is an exception that leaves the method,
  \<open>Inr None\<close> the value \<open>None\<close> of the handler, \<open>Inr (Some rows)\<close> a list. A tuple
  shorter than the description raises \<open>IndexError\<close> inside the \<open>try\<close>.
\<close>

definition execute_query :: "env \<Rightarrow> string \<Rightarrow> scalar list option \<Rightarrow> exn + row list option" where
  "execute_query E sql params =
     (case db_run E sql params of
        CursorRaises e \<Rightarrow> Inl e
      | ExecuteRaises e \<Rightarrow> Inr None
      | RollbackRaises e \<Rightarrow> Inl e
      | NoDescription \<Rightarrow> Inr (Some [])
      | Fetched columns tuples \<Rightarrow>
          if columns = [] then Inr (Some [])
          else if list_ex (\<lambda>t. length t < length columns) tuples then Inr None
          else Inr (Some (map (row_dict columns) tuples)))"

section \<open>Semantic search (semantic_search.py)\<close>

text \<open>\<open>','.join(['%s'] * n)\<close>\<close>

fun placeholders :: "nat \<Rightarrow> string" where
  "placeholders 0 = []"
| "placeholders (Suc 0) = ''%s''"
| "placeholders (Suc (Suc n)) = ''%s,'' @ placeholders (Suc n)"

definition search_sql :: "nat \<Rightarrow> string" where
  "search_sql n =
     ''SELECT id, vin, damage_descriptions, source_file FROM inspections WHERE id IN (''
       @ placeholders n @ '')''"

definition search :: "env \<Rightarrow> string \<Rightarrow> (exn + row list option) \<times> event list" where
  "search E query =
     (case semantic_ids E query of
        Inl e \<Rightarrow> (Inl e, [EmbedCall query])
      | Inr record_ids \<Rightarrow>
          (execute_query E (search_sql (length record_ids)) (Some record_ids),
           [EmbedCall query, DBCall (search_sql (length record_ids)) (Some record_ids)]))"

section \<open>LLM interface (llm_interface.py)\<close>

subsection \<open>Regular-expression substitution\<close>

text \<open>
  \<open>re.sub\<close> and \<open>str.replace\<close> for patterns that match no empty string: scanning from
  the left, the matcher gives, at a position where the pattern matches, the length of the
  match and its replacement; the scan goes on after the match, and one character further
  where there is none.
\<close>

function re_sub :: "(string \<Rightarrow> (nat \<times> string) option) \<Rightarrow> string \<Rightarrow> string" where
  "re_sub m [] = []"
| "re_sub m (c # cs) =
     (case m (c # cs) of
        None \<Rightarrow> c # re_sub m cs
      | Some (n, r) \<Rightarrow>
          if n = 0 then c # re_sub m cs else r @ re_sub m (drop n (c # cs)))"
  by pat_completeness auto
termination
  by (relation "measure (\<lambda>(m, s). length s)") auto

definition py_replace :: "string \<Rightarrow> string \<Rightarrow> string \<Rightarrow> string" where
  "py_replace old new s = re_sub (\<lambda>t. if prefix old t then Some (length old, new) else None) s"

subsection \<open>\<open>_preprocess_query\<close>\<close>

definition is_digit :: "char \<Rightarrow> bool" where
  "is_digit c = (c \<in> set ''0123456789'')"

definition is_lower_letter :: "char \<Rightarrow> bool" where
  "is_lower_letter c = (c \<in> set ''abcdefghijklmnopqrstuvwxyz'')"

definition preprocess_query :: "string \<Rightarrow> string" where
  "preprocess_query query =
     filter (\<lambda>c. is_lower_letter c \<or> is_digit c \<or> is_space c
                 \<or> c = CHR ''-'' \<or> c = CHR ''_'' \<or> c = quote)
       (strip (lower query))"

subsection \<open>\<open>route_query\<close>\<close>

definition fallback_route :: json where
  "fallback_route = JObj [(''use_semantic'', JBool False), (''reason'', JStr ''Fallback'')]"

definition invalid_route :: json where
  "invalid_route = JObj [(''use_semantic'', JBool False), (''reason'', JStr ''Invalid response'')]"

text \<open>
  \<open>json.loads(response) if response else {...}\<close> inside \<open>try\<close>, with
  \<open>except json.JSONDecodeError\<close>: any other exception of the parser leaves the method.
\<close>

definition route_query :: "env \<Rightarrow> string \<Rightarrow> (exn + json) \<times> event list" where
  "route_query E query =
     (let request = RouteRequest (preprocess_query query);
          response = generate E request
      in (case response of
            None \<Rightarrow> Inr fallback_route
          | Some text \<Rightarrow>
              if text = [] then Inr fallback_route
              else (case json_loads E text of
                      Inr decision \<Rightarrow> Inr decision
                    | Inl (JSONDecodeError msg) \<Rightarrow> Inr invalid_route
                    | Inl e \<Rightarrow> Inl e),
          [LLMCall request]))"

subsection \<open>\<open>_clean_sql\<close>\<close>

definition TEXT_COLUMNS :: "string list" where
  "TEXT_COLUMNS = [''inspector_name'', ''ramp'', ''mfg_model'', ''damage_comments'',
                   ''vehicle_comments'', ''damage_descriptions'']"

text \<open>The pattern \<^verbatim>\<open>```(sql)?|```\<close>.\<close>

definition fence_match :: "string \<Rightarrow> (nat \<times> string) option" where
  "fence_match s =
     (if prefix ''```sql'' s then Some (6, [])
      else if prefix ''```'' s then Some (3, [])
      else None)"

text \<open>
  The pattern \<^verbatim>\<open>{col}\s*=\s*'([^']+)'\<close> under \<open>re.IGNORECASE\<close>, with the replacement
  \<^verbatim>\<open>{col} ILIKE '%\1%'\<close>. No step of the match has a choice: \<open>\s*\<close> is followed by
  a character that is no white space, \<^verbatim>\<open>[^']+\<close> by a quote.
\<close>

text \<open>A literal at the head of the text, compared without regard to case.\<close>

fun prefix_ci :: "string \<Rightarrow> string \<Rightarrow> bool" where
  "prefix_ci [] s = True"
| "prefix_ci (k # ks) [] = False"
| "prefix_ci (k # ks) (c # cs) = (if lower_char c = lower_char k then prefix_ci ks cs else False)"

definition eq_match :: "string \<Rightarrow> string \<Rightarrow> (nat \<times> string) option" where
  "eq_match col s =
     (if prefix_ci col s
      then (case dropWhile is_space (drop (length col) s) of
              [] \<Rightarrow> None
            | c1 # r2 \<Rightarrow>
                if c1 = CHR ''=''
                then (case dropWhile is_space r2 of
                        [] \<Rightarrow> None
                      | c2 # r4 \<Rightarrow>
                          if c2 = quote
                          then (let v = takeWhile (\<lambda>c. c \<noteq> quote) r4;
                                    r5 = dropWhile (\<lambda>c. c \<noteq> quote) r4
                                in if v \<noteq> [] \<and> r5 \<noteq> []
                                   then Some (Suc (length s - length r5),
                                              col @ '' ILIKE '' @ [quote] @ ''%'' @ v @ ''%''
                                                @ [quote])
                                   else None)
                          else None)
                else None)
      else None)"

definition force_ilike :: "string \<Rightarrow> string \<Rightarrow> string" where
  "force_ilike col sql = re_sub (eq_match col) sql"

definition clean_sql :: "string \<Rightarrow> string" where
  "clean_sql raw_sql =
     (let sql0 = strip (re_sub fence_match raw_sql);
          sql1 = fold force_ilike TEXT_COLUMNS sql0;
          sql2 = (if \<not> contains ''SELECT'' (upper sql1) then ''SELECT * '' @ sql1 else sql1);
          sql3 = (if \<not> contains ''LIMIT'' (upper sql2) then sql2 @ '' LIMIT 1000'' else sql2)
      in takeWhile (\<lambda>c. c \<noteq> CHR '';'') sql3 @ '';'')"

subsection \<open>\<open>generate_sql\<close>\<close>

definition generate_sql :: "env \<Rightarrow> string \<Rightarrow> row list option \<Rightarrow> string option \<times> event list" where
  "generate_sql E query semantic_matches =
     (let request = SqlRequest (preprocess_query query) semantic_matches
      in (case generate E request of
            None \<Rightarrow> None
          | Some raw_sql \<Rightarrow> if raw_sql = [] then None else Some (clean_sql raw_sql),
          [LLMCall request]))"

subsection \<open>\<open>format_response\<close> and \<open>_polish_response\<close>\<close>

text \<open>The pattern \<^verbatim>\<open>\[\d+\srecords?\]|\[\]|```\<close>.\<close>

definition records_match :: "string \<Rightarrow> (nat \<times> string) option" where
  "records_match s =
     (case s of
        [] \<Rightarrow> None
      | c # r1 \<Rightarrow>
          if c = CHR ''[''
          then (let ds = takeWhile is_digit r1
                in if ds = [] then None
                   else (case dropWhile is_digit r1 of
                           [] \<Rightarrow> None
                         | w # r3 \<Rightarrow>
                             if is_space w
                             then (if prefix ''records]'' r3 then Some (length ds + 10, [])
                                   else if prefix ''record]'' r3 then Some (length ds + 9, [])
                                   else None)
                             else None))
          else None)"

definition markup_match :: "string \<Rightarrow> (nat \<times> string) option" where
  "markup_match s =
     (case records_match s of
        Some found \<Rightarrow> Some found
      | None \<Rightarrow>
          if prefix ''[]'' s then Some (2, [])
          else if prefix ''```'' s then Some (3, [])
          else None)"

definition polish_response :: "string \<Rightarrow> string" where
  "polish_response response =
     (let r1 = re_sub markup_match response;
          r2 = py_replace ''From []'' [] r1;
          r3 = py_replace ''Found 1 record'' ''Found 1 inspection record'' r2
      in case r3 of
           [] \<Rightarrow> ''No results found''
         | c # cs \<Rightarrow> upper_char c # cs)"

definition format_response ::
  "env \<Rightarrow> string \<Rightarrow> row list \<Rightarrow> enrichment \<Rightarrow> message list option \<Rightarrow> string \<times> event list" where
  "format_response E query results enr hist =
     (let request = FormatRequest query results enr hist;
          response = (case generate E request of
                        None \<Rightarrow> ''I couldn't find that information. Please try rephrasing.''
                      | Some text \<Rightarrow>
                          if text = []
                          then ''I couldn't find that information. Please try rephrasing.''
                          else text)
      in (polish_response response, [LLMCall request]))"

section \<open>Orchestrator (chatbot.py)\<close>

text \<open>
  The mutable fields of \<open>VehicleChatbot\<close>; the others are the collaborators and the
  constant schema.
\<close>

record chatbot =
  memory :: conversation_memory
  query_cache :: "(string \<times> string) list"
  error_count :: nat

definition VehicleChatbot :: chatbot where
  "VehicleChatbot = \<lparr>memory = ConversationMemory 60, query_cache = [], error_count = 0\<rparr>"

text \<open>\<open>if session_id:\<close> holds for a key that is given and not empty.\<close>

definition session_key :: "string option \<Rightarrow> string option" where
  "session_key session_id =
     (case session_id of None \<Rightarrow> None | Some k \<Rightarrow> if k = [] then None else Some k)"

subsection \<open>\<open>_is_destructive_query\<close> and \<open>_get_cached_response\<close>\<close>

definition destructive_keywords :: "string list" where
  "destructive_keywords = [''delete'', ''drop'', ''truncate'', ''alter'', ''update'', ''insert'']"

definition is_destructive_query :: "string \<Rightarrow> bool" where
  "is_destructive_query query =
     list_ex (\<lambda>keyword. contains keyword (lower query)) destructive_keywords"

definition get_cached_response :: "string \<Rightarrow> (string \<times> string) list \<Rightarrow> string option" where
  "get_cached_response query cache =
     map_option snd
       (find (\<lambda>(cached_query, response). strip (lower cached_query) = strip (lower query))
          cache)"

subsection \<open>\<open>_route_query\<close> and \<open>_get_semantic_matches\<close>\<close>

fun type_name :: "json \<Rightarrow> string" where
  "type_name JNull = ''NoneType''"
| "type_name (JBool b) = ''bool''"
| "type_name (JInt n) = ''int''"
| "type_name (JFloat m e) = ''float''"
| "type_name (JStr s) = ''str''"
| "type_name (JArr xs) = ''list''"
| "type_name (JObj kvs) = ''dict''"

text \<open>\<open>routing[key]\<close> and \<open>routing.get(key, default)\<close> on whatever the parser returned.\<close>

fun subscript :: "json \<Rightarrow> string \<Rightarrow> exn + json" where
  "subscript (JObj kvs) key =
     (case map_of kvs key of None \<Rightarrow> Inl (KeyError key) | Some v \<Rightarrow> Inr v)"
| "subscript (JArr xs) key = Inl (TypeError ''list indices must be integers or slices, not str'')"
| "subscript (JStr s) key = Inl (TypeError (''string indices must be integers, not 'str'' @ [quote]))"
| "subscript j key = Inl (TypeError (quote # type_name j @ ''' object is not subscriptable''))"

fun dict_get :: "json \<Rightarrow> string \<Rightarrow> json \<Rightarrow> exn + json" where
  "dict_get (JObj kvs) key dflt =
     (case map_of kvs key of None \<Rightarrow> Inr dflt | Some v \<Rightarrow> Inr v)"
| "dict_get j key dflt =
     Inl (AttributeError (quote # type_name j @ ''' object has no attribute 'get'' @ [quote]))"

text \<open>
  \<open>_route_query\<close>: the log line reads \<open>routing['use_semantic']\<close>, then
  \<open>routing['reason']\<close>.
\<close>

definition chatbot_route_query :: "env \<Rightarrow> string \<Rightarrow> (exn + json) \<times> event list" where
  "chatbot_route_query E query =
     (case route_query E query of
        (Inl e, tr) \<Rightarrow> (Inl e, tr)
      | (Inr routing, tr) \<Rightarrow>
          (case subscript routing ''use_semantic'' of
             Inl e \<Rightarrow> (Inl e, tr)
           | Inr flag \<Rightarrow>
               (case subscript routing ''reason'' of
                  Inl e \<Rightarrow> (Inl e, tr)
                | Inr reason \<Rightarrow> (Inr routing, tr))))"

text \<open>\<open>len(matches)\<close> raises when the search returned \<open>None\<close>.\<close>

definition get_semantic_matches ::
  "env \<Rightarrow> string \<Rightarrow> json \<Rightarrow> (exn + row list option) \<times> event list" where
  "get_semantic_matches E query routing =
     (case dict_get routing ''use_semantic'' (JBool False) of
        Inl e \<Rightarrow> (Inl e, [])
      | Inr flag \<Rightarrow>
          if json_truthy flag
          then (case search E query of
                  (Inl e, tr) \<Rightarrow> (Inl e, tr)
                | (Inr None, tr) \<Rightarrow>
                    (Inl (TypeError ''object of type 'NoneType' has no len()''), tr)
                | (Inr (Some matches), tr) \<Rightarrow> (Inr (Some matches), tr))
          else (Inr None, []))"

subsection \<open>\<open>_enrich_results\<close>\<close>

text \<open>
  The three collections of the loop: the \<open>set\<close> of source files (a list without
  repetition; its order plays no part, it is sorted at the end) and the two \<open>dict\<close>s of
  counts, in insertion order.
\<close>

record tally =
  seen_files :: "scalar list"
  damage_types :: "(string \<times> nat) list"
  inspectors :: "(string \<times> nat) list"

definition row_get :: "row \<Rightarrow> string \<Rightarrow> scalar \<Rightarrow> scalar" where
  "row_get rec key dflt = (case map_of rec key of None \<Rightarrow> dflt | Some v \<Rightarrow> v)"

text \<open>\<open>counts[k] = counts.get(k, 0) + 1\<close>\<close>

definition bump :: "string \<Rightarrow> (string \<times> nat) list \<Rightarrow> (string \<times> nat) list" where
  "bump k counts = AList.update k (Suc (case map_of counts k of None \<Rightarrow> 0 | Some n \<Rightarrow> n)) counts"

text \<open>\<open>damage.split('-')[0].strip().lower()\<close>\<close>

definition damage_category :: "string \<Rightarrow> string" where
  "damage_category damage = lower (strip (takeWhile (\<lambda>c. c \<noteq> CHR ''-'') damage))"

definition tally_source :: "row \<Rightarrow> tally \<Rightarrow> tally" where
  "tally_source rec t =
     (let src = row_get rec ''source_file'' SNull
      in if truthy src then t\<lparr>seen_files := List.insert src (seen_files t)\<rparr> else t)"

definition tally_damage :: "row \<Rightarrow> tally \<Rightarrow> exn + tally" where
  "tally_damage rec t =
     (case row_get rec ''damage_descriptions'' (SStr []) of
        SNull \<Rightarrow> Inr t
      | SInt n \<Rightarrow>
          if n = 0 then Inr t
          else Inl (AttributeError ('''int' object has no attribute 'split'' @ [quote]))
      | SStr damage \<Rightarrow>
          if damage = [] then Inr t
          else Inr (t\<lparr>damage_types := bump (damage_category damage) (damage_types t)\<rparr>))"

definition tally_inspector :: "row \<Rightarrow> tally \<Rightarrow> exn + tally" where
  "tally_inspector rec t =
     (case row_get rec ''inspector_name'' (SStr []) of
        SNull \<Rightarrow> Inr t
      | SInt n \<Rightarrow>
          if n = 0 then Inr t
          else Inl (AttributeError ('''int' object has no attribute 'lower'' @ [quote]))
      | SStr inspector \<Rightarrow>
          if inspector = [] then Inr t
          else Inr (t\<lparr>inspectors := bump (lower inspector) (inspectors t)\<rparr>))"

text \<open>The body of the loop for one record, and the loop; an exception ends it.\<close>

definition tally_record :: "row \<Rightarrow> tally \<Rightarrow> exn + tally" where
  "tally_record rec t =
     (case tally_damage rec (tally_source rec t) of
        Inl e \<Rightarrow> Inl e
      | Inr t2 \<Rightarrow> tally_inspector rec t2)"

fun tally_all :: "row list \<Rightarrow> tally \<Rightarrow> exn + tally" where
  "tally_all [] t = Inr t"
| "tally_all (rec # recs) t =
     (case tally_record rec t of Inl e \<Rightarrow> Inl e | Inr t1 \<Rightarrow> tally_all recs t1)"

fun str_of :: "scalar \<Rightarrow> string" where
  "str_of (SStr s) = s"
| "str_of v = []"

fun int_of :: "scalar \<Rightarrow> int" where
  "int_of (SInt n) = n"
| "int_of v = 0"

fun is_str :: "scalar \<Rightarrow> bool" where
  "is_str (SStr s) = True"
| "is_str v = False"

fun is_int :: "scalar \<Rightarrow> bool" where
  "is_int (SInt n) = True"
| "is_int v = False"

text \<open>
  \<open>sorted\<close> on the members of the set: texts by code point, integers by value; a text
  and an integer do not compare. The operand order in the text of that \<open>TypeError\<close>
  follows the iteration order of the set, which the model fixes.
\<close>

definition py_sorted :: "scalar list \<Rightarrow> exn + scalar list" where
  "py_sorted xs =
     (if length xs \<le> 1 then Inr xs
      else if list_all is_str xs then Inr (map SStr (sort (map str_of xs)))
      else if list_all is_int xs then Inr (map SInt (sort (map int_of xs)))
      else Inl (TypeError ('''<' not supported between instances of 'str' and 'int''
                            @ [quote])))"

text \<open>\<open>max(counts.items(), key=lambda x: x[1], default=d)\<close>: the first item of greatest count.\<close>

fun max_by_count :: "(string \<times> nat) list \<Rightarrow> string \<times> nat \<Rightarrow> string \<times> nat" where
  "max_by_count [] dflt = dflt"
| "max_by_count (x # xs) dflt = fold (\<lambda>y best. if snd best < snd y then y else best) xs x"

text \<open>
  \<open>_enrich_results\<close>; the entry \<open>{"file": f}\<close> of \<open>source_files\<close> is given by \<open>f\<close>. The
  second parameter is not used by the source either.
\<close>

definition enrich_results :: "row list \<Rightarrow> row list option \<Rightarrow> exn + enrichment" where
  "enrich_results results semantic_matches =
     (if results = [] then Inr NoEnrichment
      else (case tally_all results \<lparr>seen_files = [], damage_types = [], inspectors = []\<rparr> of
              Inl e \<Rightarrow> Inl e
            | Inr t \<Rightarrow>
                (case py_sorted (seen_files t) of
                   Inl e \<Rightarrow> Inl e
                 | Inr files \<Rightarrow>
                     Inr (Enrichment (take 3 files)
                            (max_by_count (damage_types t) (''none'', 0))
                            (max_by_count (inspectors t) (''unknown'', 0))
                            (length results)))))"

subsection \<open>\<open>_handle_empty_results\<close> and \<open>_generate_suggestion\<close>\<close>

definition generate_suggestion :: "string \<Rightarrow> message list \<Rightarrow> string" where
  "generate_suggestion query hist =
     (let query_lower = lower query
      in if contains ''vin'' query_lower then ''Please verify the VIN number.''
         else if list_ex (\<lambda>word. contains word query_lower) [''date'', ''month'', ''year'']
         then ''Try adjusting the date range.''
         else if hist \<noteq> [] \<and> contains ''model'' (lower (content (last hist)))
         then ''Try specifying the manufacturer (e.g., 'Ford F150').''
         else ''Try being more specific with your criteria.'')"

definition trouble_message :: string where
  "trouble_message =
     ''I'm having trouble finding that information. Please try different criteria.''"

definition handle_empty_results :: "env \<Rightarrow> string \<Rightarrow> string option \<Rightarrow> chatbot \<Rightarrow> string \<times> chatbot" where
  "handle_empty_results E query session_id s =
     (if error_count s > 2 then (trouble_message, s)
      else (case session_key session_id of
              None \<Rightarrow> (''No matching records found. '' @ generate_suggestion query [], s)
            | Some k \<Rightarrow>
                (case get_history (now_history E) k 10 (memory s) of
                   (hist, m1) \<Rightarrow>
                     (''No matching records found. '' @ generate_suggestion query hist,
                      s\<lparr>memory := m1\<rparr>))))"

subsection \<open>\<open>_update_state\<close> and \<open>_handle_error\<close>\<close>

definition update_state :: "env \<Rightarrow> string \<Rightarrow> string \<Rightarrow> string option \<Rightarrow> chatbot \<Rightarrow> chatbot" where
  "update_state E query response session_id s =
     (let s1 = s\<lparr>query_cache := AList.update query response (query_cache s)\<rparr>
      in case session_key session_id of
           None \<Rightarrow> s1
         | Some k \<Rightarrow>
             s1\<lparr>memory := add_message (now_sweep E) (now_created E) (now_stamp E) (now_access E)
                              k ''assistant'' response (memory s1)\<rparr>)"

definition unavailable_message :: string where
  "unavailable_message = ''Our systems are temporarily unavailable. Please try again later.''"

definition rephrase_message :: string where
  "rephrase_message = ''I didn't understand that request. Please try rephrasing.''"

definition unexpected_message :: string where
  "unexpected_message = ''An unexpected error occurred. Please try again.''"

definition error_message :: "string \<Rightarrow> string" where
  "error_message error_msg =
     (if contains ''connection'' error_msg then unavailable_message
      else if list_ex (\<lambda>word. contains word error_msg) [''syntax'', ''sql'']
      then rephrase_message
      else unexpected_message)"

definition handle_error :: "env \<Rightarrow> exn \<Rightarrow> string \<Rightarrow> string option \<Rightarrow> chatbot \<Rightarrow> string \<times> chatbot" where
  "handle_error E error query session_id s =
     (let error_msg = lower (str_exn error);
          msg = error_message error_msg
      in case session_key session_id of
           None \<Rightarrow> (msg, s)
         | Some k \<Rightarrow>
             (msg,
              s\<lparr>memory := add_message (now_sweep E) (now_created E) (now_stamp E) (now_access E)
                             k ''system'' (''Error: '' @ take 100 error_msg) (memory s)\<rparr>))"

subsection \<open>\<open>_execute_query_flow\<close>\<close>

text \<open>
  The result is the returned text or the exception that leaves the method, the state as
  the method leaves it, and the requests it made. \<open>clean_datetime\<close> finds no date in the
  serialised rows. \<open>not results\<close> holds for \<open>None\<close> and for the empty list.
\<close>

definition execute_query_flow ::
  "env \<Rightarrow> string \<Rightarrow> json \<Rightarrow> row list option \<Rightarrow> string option \<Rightarrow> chatbot \<Rightarrow>
     (exn + string) \<times> chatbot \<times> event list" where
  "execute_query_flow E query routing semantic_matches session_id s =
     (case generate_sql E query semantic_matches of
        (None, tr1) \<Rightarrow> (Inr ''I need more details to answer that.'', s, tr1)
      | (Some sql, tr1) \<Rightarrow>
          if sql = [] then (Inr ''I need more details to answer that.'', s, tr1)
          else (case execute_query E sql None of
                  Inl e \<Rightarrow> (Inl e, s, tr1 @ [DBCall sql None])
                | Inr None \<Rightarrow>
                    (case handle_empty_results E query session_id s of
                       (text, s1) \<Rightarrow> (Inr text, s1, tr1 @ [DBCall sql None]))
                | Inr (Some results) \<Rightarrow>
                    if results = []
                    then (case handle_empty_results E query session_id s of
                            (text, s1) \<Rightarrow> (Inr text, s1, tr1 @ [DBCall sql None]))
                    else (case (case session_key session_id of
                                  None \<Rightarrow> ([], memory s)
                                | Some k \<Rightarrow> get_history (now_history E) k 10 (memory s)) of
                            (hist, m1) \<Rightarrow>
                              (case enrich_results results semantic_matches of
                                 Inl e \<Rightarrow> (Inl e, s\<lparr>memory := m1\<rparr>, tr1 @ [DBCall sql None])
                               | Inr enr \<Rightarrow>
                                   (case format_response E query results enr
                                           (if hist = [] then None else Some hist) of
                                      (response, tr2) \<Rightarrow>
                                        (Inr response,
                                         update_state E query response session_id
                                           (s\<lparr>memory := m1\<rparr>),
                                         tr1 @ [DBCall sql None] @ tr2))))))"

subsection \<open>\<open>process_query\<close>\<close>

text \<open>The body of the \<open>try\<close> after the two early returns.\<close>

definition query_pipeline ::
  "env \<Rightarrow> string \<Rightarrow> string option \<Rightarrow> chatbot \<Rightarrow> (exn + string) \<times> chatbot \<times> event list" where
  "query_pipeline E query session_id s =
     (case chatbot_route_query E query of
        (Inl e, tr1) \<Rightarrow> (Inl e, s, tr1)
      | (Inr routing, tr1) \<Rightarrow>
          (case get_semantic_matches E query routing of
             (Inl e, tr2) \<Rightarrow> (Inl e, s, tr1 @ tr2)
           | (Inr semantic_matches, tr2) \<Rightarrow>
               (case execute_query_flow E query routing semantic_matches session_id s of
                  (result, s1, tr3) \<Rightarrow> (result, s1, tr1 @ tr2 @ tr3))))"

definition refusal_message :: string where
  "refusal_message = ''I can only provide read-only inspection data.''"

text \<open>\<open>if cached:\<close> holds for a cached response that is not empty.\<close>

definition cache_hit :: "string \<Rightarrow> chatbot \<Rightarrow> string option" where
  "cache_hit query s =
     (case get_cached_response query (query_cache s) of
        None \<Rightarrow> None
      | Some cached \<Rightarrow> if cached = [] then None else Some cached)"

definition process_query ::
  "env \<Rightarrow> string \<Rightarrow> string option \<Rightarrow> chatbot \<Rightarrow> string \<times> chatbot \<times> event list" where
  "process_query E query session_id s =
     (case cache_hit query s of
        Some cached \<Rightarrow> (cached, s, [])
      | None \<Rightarrow>
          if is_destructive_query query then (refusal_message, s, [])
          else (case query_pipeline E query session_id s of
                  (Inr response, s1, tr) \<Rightarrow> (response, s1\<lparr>error_count := 0\<rparr>, tr)
                | (Inl e, s1, tr) \<Rightarrow>
                    (case handle_error E e query session_id
                            (s1\<lparr>error_count := Suc (error_count s1)\<rparr>) of
                       (msg, s2) \<Rightarrow> (msg, s2, tr))))"

text \<open>
  A run of \<open>process_query\<close> calls on one chatbot, each with its collaborators' answers, its
  query and its session key: the state after the run, and the responses.
\<close>

fun run :: "(env \<times> string \<times> string option) list \<Rightarrow> chatbot \<Rightarrow> chatbot" where
  "run [] s = s"
| "run ((E, query, session_id) # calls) s =
     run calls (fst (snd (process_query E query session_id s)))"

fun responses :: "(env \<times> string \<times> string option) list \<Rightarrow> chatbot \<Rightarrow> string list" where
  "responses [] s = []"
| "responses ((E, query, session_id) # calls) s =
     fst (process_query E query session_id s)
       # responses calls (fst (snd (process_query E query session_id s)))"

section \<open>Notions used by the properties\<close>

text \<open>
  The state of the cache that calls of \<open>process_query\<close> maintain: no cached query is
  destructive and no cached response is empty.
\<close>

definition cache_ok :: "(string \<times> string) list \<Rightarrow> bool" where
  "cache_ok cache = (\<forall>(q, r)\<in>set cache. \<not> is_destructive_query q \<and> r \<noteq> [])"

text \<open>A call formatted a response when its requests include one to \<open>format_response\<close>.\<close>

fun is_format_call :: "event \<Rightarrow> bool" where
  "is_format_call (LLMCall (FormatRequest query results enr hist)) = True"
| "is_format_call ev = False"

definition formatted :: "event list \<Rightarrow> bool" where
  "formatted tr = list_ex is_format_call tr"


text \<open>
  The values a result set holds in the fields \<open>_enrich_results\<close> reads: the truthy source
  files, and the texts, not empty, under a key. The keys it counts: damage categories
  and lowercased inspector names.
\<close>

definition file_values :: "row list \<Rightarrow> scalar list" where
  "file_values results = filter truthy (map (\<lambda>rec. row_get rec ''source_file'' SNull) results)"

definition text_values :: "string \<Rightarrow> row list \<Rightarrow> string list" where
  "text_values key results =
     filter (\<lambda>s. s \<noteq> []) (map (\<lambda>rec. str_of (row_get rec key (SStr []))) results)"

definition categories :: "row list \<Rightarrow> string list" where
  "categories results = map damage_category (text_values ''damage_descriptions'' results)"

definition inspector_keys :: "row list \<Rightarrow> string list" where
  "inspector_keys results = map lower (text_values ''inspector_name'' results)"

text \<open>A result set whose three fields hold a text or \<open>NULL\<close> in every row, or lack it.\<close>

fun text_or_null :: "scalar \<Rightarrow> bool" where
  "text_or_null (SInt n) = False"
| "text_or_null v = True"

definition text_fields :: "row list \<Rightarrow> bool" where
  "text_fields results =
     list_all (\<lambda>rec. text_or_null (row_get rec ''source_file'' SNull)
                   \<and> text_or_null (row_get rec ''damage_descriptions'' (SStr []))
                   \<and> text_or_null (row_get rec ''inspector_name'' (SStr []))) results"

text \<open>
  \<open>item\<close> is a most frequent key of \<open>keys\<close> with its count, or \<open>dflt\<close> when there is no
  key.
\<close>

definition top_of :: "string list \<Rightarrow> string \<times> nat \<Rightarrow> string \<times> nat \<Rightarrow> bool" where
  "top_of keys dflt item =
     (if keys = [] then item = dflt
      else fst item \<in> set keys \<and> snd item = count_list keys (fst item)
           \<and> (\<forall>k\<in>set keys. count_list keys k \<le> snd item))"

text \<open>
  The counts kept by the loop after the keys \<open>keys\<close>: one entry for each key that
  occurred, holding the number of its occurrences.
\<close>

definition counts_ok :: "string list \<Rightarrow> (string \<times> nat) list \<Rightarrow> bool" where
  "counts_ok keys acc =
     (distinct (map fst acc)
      \<and> map_of acc = (\<lambda>k. if k \<in> set keys then Some (count_list keys k) else None))"

text \<open>
  The damage category in the words of the specification: the segment before the first
  \<open>-\<close>, lowercased.
\<close>

definition spec_category :: "string \<Rightarrow> string" where
  "spec_category damage = lower (takeWhile (\<lambda>c. c \<noteq> CHR ''-'') damage)"

section \<open>Sample collaborators\<close>

text \<open>
  Collaborators for the concrete runs below. The routing answer is absent or unparseable,
  so the structured path is taken; the statement returned by the oracle and the answer
  of the database differ from one to the next.
\<close>

definition sample_llm :: "llm_request \<Rightarrow> string option" where
  "sample_llm request =
     (case request of
        RouteRequest query \<Rightarrow> None
      | SqlRequest query semantic_matches \<Rightarrow> Some ''SELECT ramp FROM inspections''
      | FormatRequest query results enr hist \<Rightarrow> Some ''found 2 ramps.'')"

definition sample_env :: "db_outcome \<Rightarrow> env" where
  "sample_env outcome =
     \<lparr>generate = sample_llm,
      json_loads = (\<lambda>text. Inl (JSONDecodeError ''Expecting value'')),
      semantic_ids = (\<lambda>query. Inr []),
      db_run = (\<lambda>sql params. outcome),
      now_history = 1, now_sweep = 2, now_created = 3, now_stamp = 4, now_access = 5\<rparr>"

definition two_ramps :: db_outcome where
  "two_ramps = Fetched [''ramp''] [[DScalar (SStr ''Chicago'')], [DScalar (SStr ''Detroit'')]]"

definition no_rows :: db_outcome where
  "no_rows = Fetched [''ramp''] []"

definition sql_error :: db_outcome where
  "sql_error = ExecuteRaises (Raised ''relation does not exist'')"

definition cursor_closed :: db_outcome where
  "cursor_closed = CursorRaises (Raised ''connection already closed'')"

text \<open>
  An oracle that answers the routing request with a run of a thousand \<open>[\<close>, and the
  parser's answer to it. An oracle that writes the statement and then fails at the
  formatting request.
\<close>

definition deep_env :: env where
  "deep_env =
     (sample_env two_ramps)
       \<lparr>generate := (\<lambda>request. Some (replicate 1000 (CHR ''[''))),
        json_loads := (\<lambda>text.
          Inl (RecursionError
                 ''maximum recursion depth exceeded while decoding a JSON array from a unicode string''))\<rparr>"



text \<open>Result sets for the enrichment.\<close>

definition dented :: "row list" where
  "dented = [[(''damage_descriptions'', SStr ''Dent - door'')],
             [(''damage_descriptions'', SStr ''dent-hood'')]]"

definition inspected :: "row list" where
  "inspected =
     [[(''source_file'', SStr ''b.pdf''), (''damage_descriptions'', SStr ''Hood - Dent - Minor''),
       (''inspector_name'', SStr ''Bryan'')],
      [(''source_file'', SStr ''a.pdf''), (''damage_descriptions'', SStr ''hood-Scratch''),
       (''inspector_name'', SStr ''bryan'')],
      [(''source_file'', SStr ''b.pdf''), (''damage_descriptions'', SStr ''Door-Dent''),
       (''inspector_name'', SNull)]]"

section \<open>Facts about the string primitives\<close>

text \<open>The two case mappings, by the ranges of the letters.\<close>

lemma lower_char_range:
  "lower_char c =
     (if CHR ''A'' \<le> c \<and> c \<le> CHR ''Z'' then char_of (of_char c + (32::nat)) else c)"
proof (cases c)
  case (Char b0 b1 b2 b3 b4 b5 b6 b7)
  show ?thesis
    unfolding Char
    by (cases b0; cases b1; cases b2; cases b3; cases b4; cases b5; cases b6; cases b7;
        simp add: less_eq_char_def char_of_def bit_Suc_0_iff)
qed

lemma upper_char_range:
  "upper_char c =
     (if CHR ''a'' \<le> c \<and> c \<le> CHR ''z'' then char_of (of_char c - (32::nat)) else c)"
proof (cases c)
  case (Char b0 b1 b2 b3 b4 b5 b6 b7)
  show ?thesis
    unfolding Char
    by (cases b0; cases b1; cases b2; cases b3; cases b4; cases b5; cases b6; cases b7;
        simp add: less_eq_char_def char_of_def bit_Suc_0_iff)
qed

lemma sublist_drop_left:
  assumes "sublist k (a @ b)" and "\<forall>c\<in>set a. P c" and "\<forall>c\<in>set k. \<not> P c" and "k \<noteq> []"
  shows "sublist k b"
proof -
  from assms(1) consider "sublist k a" | "sublist k b"
    | k1 k2 where "k = k1 @ k2" "suffix k1 a" "prefix k2 b"
    by (auto simp: sublist_append)
  then show ?thesis
  proof cases
    case 1
    then have "set k \<subseteq> set a" by (rule set_mono_sublist)
    with assms(2,3,4) show ?thesis by (cases k) auto
  next
    case 2
    then show ?thesis .
  next
    case 3
    have "set k1 \<subseteq> set a" using 3(2) by (rule set_mono_suffix)
    with assms(2,3) 3(1) have "k1 = []" by (cases k1) auto
    with 3 show ?thesis by (simp add: prefix_imp_sublist)
  qed
qed

lemma sublist_drop_right:
  assumes "sublist k (b @ a)" and "\<forall>c\<in>set a. P c" and "\<forall>c\<in>set k. \<not> P c" and "k \<noteq> []"
  shows "sublist k b"
proof -
  from assms(1) consider "sublist k b" | "sublist k a"
    | k1 k2 where "k = k1 @ k2" "suffix k1 b" "prefix k2 a"
    by (auto simp: sublist_append)
  then show ?thesis
  proof cases
    case 1
    then show ?thesis .
  next
    case 2
    then have "set k \<subseteq> set a" by (rule set_mono_sublist)
    with assms(2,3,4) show ?thesis by (cases k) auto
  next
    case 3
    have "set k2 \<subseteq> set a" using 3(3) by (rule set_mono_prefix)
    with assms(2,3) 3(1) have "k2 = []" by (cases k2) auto
    with 3 show ?thesis by (simp add: suffix_imp_sublist)
  qed
qed

lemma lstrip_split: "\<exists>a. s = a @ lstrip s \<and> (\<forall>c\<in>set a. is_space c)"
proof
  show "s = takeWhile is_space s @ lstrip s \<and> (\<forall>c\<in>set (takeWhile is_space s). is_space c)"
    by (auto simp: lstrip_def dest: set_takeWhileD)
qed

lemma rstrip_split: "\<exists>a. s = rstrip s @ a \<and> (\<forall>c\<in>set a. is_space c)"
proof
  have "rev (dropWhile is_space (rev s)) @ rev (takeWhile is_space (rev s))
          = rev (takeWhile is_space (rev s) @ dropWhile is_space (rev s))"
    by (simp only: rev_append)
  also have "\<dots> = s"
    by (simp only: takeWhile_dropWhile_id rev_rev_ident)
  finally have "s = rstrip s @ rev (takeWhile is_space (rev s))"
    by (simp only: rstrip_def)
  moreover have "\<forall>c\<in>set (rev (takeWhile is_space (rev s))). is_space c"
    by (auto dest: set_takeWhileD)
  ultimately show "s = rstrip s @ rev (takeWhile is_space (rev s))
      \<and> (\<forall>c\<in>set (rev (takeWhile is_space (rev s))). is_space c)" by blast
qed

lemma strip_split: "\<exists>a b. s = a @ strip s @ b \<and> (\<forall>c\<in>set a. is_space c) \<and> (\<forall>c\<in>set b. is_space c)"
proof -
  obtain a where a: "s = a @ lstrip s" "\<forall>c\<in>set a. is_space c"
    using lstrip_split by blast
  obtain b where b: "lstrip s = rstrip (lstrip s) @ b" "\<forall>c\<in>set b. is_space c"
    using rstrip_split by blast
  have "s = a @ strip s @ b"
    using a(1) b(1) by (simp add: strip_def)
  with a(2) b(2) show ?thesis by blast
qed

lemma contains_strip:
  assumes "\<forall>c\<in>set k. \<not> is_space c" and "k \<noteq> []"
  shows "contains k (strip s) = contains k s"
proof -
  obtain a b where s: "s = a @ strip s @ b" and a: "\<forall>c\<in>set a. is_space c"
    and b: "\<forall>c\<in>set b. is_space c"
    using strip_split by blast
  show ?thesis
  proof
    assume "contains k (strip s)"
    then obtain ps ss where "strip s = ps @ k @ ss"
      by (auto simp: contains_def sublist_def)
    then have "a @ strip s @ b = (a @ ps) @ k @ (ss @ b)"
      by simp
    then have "sublist k (a @ strip s @ b)"
      unfolding sublist_def by blast
    with s show "contains k s" by (simp add: contains_def)
  next
    assume "contains k s"
    with s have "sublist k (a @ strip s @ b)" by (simp add: contains_def)
    then have "sublist k (strip s @ b)"
      using a assms by (rule sublist_drop_left)
    then have "sublist k (strip s)"
      using b assms by (rule sublist_drop_right)
    then show "contains k (strip s)" by (simp add: contains_def)
  qed
qed

section \<open>The cache and the destructive-intent guard\<close>

lemma keyword_plain:
  "keyword \<in> set destructive_keywords \<Longrightarrow> (\<forall>c\<in>set keyword. \<not> is_space c) \<and> keyword \<noteq> []"
  by (auto simp: destructive_keywords_def is_space_def)

lemma is_destructive_query_normalized:
  "is_destructive_query query =
     list_ex (\<lambda>keyword. contains keyword (strip (lower query))) destructive_keywords"
  unfolding is_destructive_query_def list_ex_iff
  using keyword_plain contains_strip by blast

lemma is_destructive_query_cong:
  "strip (lower q1) = strip (lower q2) \<Longrightarrow> is_destructive_query q1 = is_destructive_query q2"
  by (simp add: is_destructive_query_normalized)

lemma get_cached_response_SomeD:
  "get_cached_response query cache = Some r \<Longrightarrow>
     \<exists>q. (q, r) \<in> set cache \<and> strip (lower q) = strip (lower query)"
  by (induction cache) (auto simp: get_cached_response_def split: if_splits)

lemma destructive_not_cached:
  assumes "cache_ok (query_cache s)" and "is_destructive_query query"
  shows "cache_hit query s = None"
proof (cases "get_cached_response query (query_cache s)")
  case None
  then show ?thesis by (simp add: cache_hit_def)
next
  case (Some r)
  then obtain q where q: "(q, r) \<in> set (query_cache s)" "strip (lower q) = strip (lower query)"
    using get_cached_response_SomeD by blast
  from q(2) assms(2) have "is_destructive_query q"
    using is_destructive_query_cong by blast
  with assms(1) q(1) show ?thesis by (auto simp: cache_ok_def)
qed

lemma set_update_subset: "set (AList.update k v al) \<subseteq> insert (k, v) (set al)"
  by (induction al) auto

lemma cache_ok_update:
  "cache_ok cache \<Longrightarrow> \<not> is_destructive_query q \<Longrightarrow> r \<noteq> [] \<Longrightarrow> cache_ok (AList.update q r cache)"
  using set_update_subset [of q r cache] by (auto simp: cache_ok_def)

lemma polish_response_nonempty: "polish_response response \<noteq> []"
  by (simp add: polish_response_def Let_def split: list.splits)

lemma format_response_nonempty: "fst (format_response E query results enr hist) \<noteq> []"
  by (simp add: format_response_def Let_def polish_response_nonempty)

lemma handle_empty_results_frame:
  "query_cache (snd (handle_empty_results E query sid s)) = query_cache s"
  "error_count (snd (handle_empty_results E query sid s)) = error_count s"
  by (auto simp: handle_empty_results_def split: option.splits prod.splits)

lemma update_state_frame:
  "query_cache (update_state E query response sid s) = AList.update query response (query_cache s)"
  "error_count (update_state E query response sid s) = error_count s"
  by (auto simp: update_state_def Let_def split: option.splits)

section \<open>What a call of the pipeline changes\<close>

lemma generate_sql_trace: "\<not> formatted (snd (generate_sql E query sm))"
  by (simp add: generate_sql_def Let_def formatted_def)

lemma format_response_trace: "formatted (snd (format_response E query results enr hist))"
  by (simp add: format_response_def Let_def formatted_def)

lemma route_query_trace: "\<not> formatted (snd (route_query E query))"
  by (simp add: route_query_def Let_def formatted_def)

lemma search_trace: "\<not> formatted (snd (search E query))"
  by (simp add: search_def formatted_def split: sum.splits)

lemma formatted_append [simp]: "formatted (xs @ ys) = (formatted xs \<or> formatted ys)"
  by (auto simp: formatted_def)

lemma formatted_Cons [simp]: "formatted (e # tr) = (is_format_call e \<or> formatted tr)"
  by (simp add: formatted_def)

lemma format_responseD:
  "format_response E query results enr hist = (r, tr) \<Longrightarrow> r \<noteq> [] \<and> formatted tr"
  using format_response_nonempty [of E query results enr hist]
    format_response_trace [of E query results enr hist]
  by simp

lemma formatted_Nil [simp]: "\<not> formatted []"
  by (simp add: formatted_def)

lemma chatbot_route_query_trace: "\<not> formatted (snd (chatbot_route_query E query))"
  using route_query_trace [of E query]
  by (auto simp: chatbot_route_query_def split: prod.splits sum.splits)

lemma get_semantic_matches_trace: "\<not> formatted (snd (get_semantic_matches E query routing))"
  using search_trace [of E query]
  by (auto simp: get_semantic_matches_def split: prod.splits sum.splits option.splits)

lemma execute_query_flow_cases:
  assumes "execute_query_flow E query routing sm sid s = (res, s1, tr)"
  shows "error_count s1 = error_count s
       \<and> (if formatted tr
          then \<exists>r. res = Inr r \<and> r \<noteq> [] \<and> query_cache s1 = AList.update query r (query_cache s)
          else query_cache s1 = query_cache s)"
proof -
  obtain sqlo tr1 where g: "generate_sql E query sm = (sqlo, tr1)"
    by (cases "generate_sql E query sm")
  have tr1: "\<not> formatted tr1"
    using generate_sql_trace [of E query sm] g by simp
  show ?thesis
    using assms g tr1 handle_empty_results_frame [of E query sid s]
    by (auto simp: execute_query_flow_def update_state_frame
        split: option.splits sum.splits prod.splits if_splits dest!: format_responseD)
qed


lemma query_pipeline_cases:
  assumes "query_pipeline E query sid s = (res, s1, tr)"
  shows "error_count s1 = error_count s
       \<and> (if formatted tr
          then \<exists>r. res = Inr r \<and> r \<noteq> [] \<and> query_cache s1 = AList.update query r (query_cache s)
          else query_cache s1 = query_cache s)"
proof -
  obtain rt tr1 where r: "chatbot_route_query E query = (rt, tr1)"
    by (cases "chatbot_route_query E query")
  have tr1: "\<not> formatted tr1"
    using chatbot_route_query_trace [of E query] r by simp
  show ?thesis
  proof (cases rt)
    case (Inl e)
    with assms r tr1 show ?thesis
      by (auto simp: query_pipeline_def)
  next
    case (Inr routing)
    obtain sm tr2 where m: "get_semantic_matches E query routing = (sm, tr2)"
      by (cases "get_semantic_matches E query routing")
    have tr2: "\<not> formatted tr2"
      using get_semantic_matches_trace [of E query routing] m by simp
    show ?thesis
    proof (cases sm)
      case (Inl e)
      with assms r tr1 m tr2 \<open>rt = Inr routing\<close> show ?thesis
        by (auto simp: query_pipeline_def)
    next
      case sm: (Inr matches)
      obtain res3 s3 tr3 where
        f: "execute_query_flow E query routing matches sid s = (res3, s3, tr3)"
        by (cases "execute_query_flow E query routing matches sid s")
      from assms r m sm f \<open>rt = Inr routing\<close>
      have eq: "res = res3" "s1 = s3" "tr = tr1 @ tr2 @ tr3"
        by (simp_all add: query_pipeline_def)
      from execute_query_flow_cases [OF f] tr1 tr2 eq show ?thesis
        by simp
    qed
  qed
qed

lemma handle_errorD:
  "handle_error E e query sid s = (msg, s2) \<Longrightarrow>
     query_cache s2 = query_cache s \<and> error_count s2 = error_count s
     \<and> msg = error_message (lower (str_exn e))"
  by (auto simp: handle_error_def Let_def split: option.splits)

lemma process_query_cases:
  assumes "process_query E query sid s = (resp, s', tr)"
  shows "if formatted tr
         then cache_hit query s = None \<and> \<not> is_destructive_query query \<and> resp \<noteq> []
              \<and> query_cache s' = AList.update query resp (query_cache s)
         else query_cache s' = query_cache s"
proof (cases "cache_hit query s")
  case (Some cached)
  with assms show ?thesis
    by (auto simp: process_query_def)
next
  case None
  show ?thesis
  proof (cases "is_destructive_query query")
    case True
    with assms None show ?thesis
      by (auto simp: process_query_def)
  next
    case False
    obtain res s1 tr1 where p: "query_pipeline E query sid s = (res, s1, tr1)"
      by (cases "query_pipeline E query sid s")
    show ?thesis
      using assms None False p query_pipeline_cases [OF p]
      by (auto simp: process_query_def split: sum.splits prod.splits if_splits
          dest!: handle_errorD)
  qed
qed

lemma process_query_cache_ok:
  assumes "cache_ok (query_cache s)"
  shows "cache_ok (query_cache (fst (snd (process_query E query sid s))))"
proof -
  obtain resp s' tr where p: "process_query E query sid s = (resp, s', tr)"
    by (cases "process_query E query sid s")
  from process_query_cases [OF p] assms have "cache_ok (query_cache s')"
    by (auto simp: cache_ok_update split: if_splits)
  with p show ?thesis by simp
qed

lemma run_cache_ok:
  "cache_ok (query_cache s) \<Longrightarrow> cache_ok (query_cache (run calls s))"
proof (induction calls arbitrary: s)
  case Nil
  then show ?case by simp
next
  case (Cons c calls)
  obtain E query sid where c: "c = (E, query, sid)"
    by (cases c) auto
  from Cons.prems have "cache_ok (query_cache (fst (snd (process_query E query sid s))))"
    by (rule process_query_cache_ok)
  then show ?case
    using Cons.IH c by simp
qed

lemma cache_ok_initial: "cache_ok (query_cache VehicleChatbot)"
  by (simp add: VehicleChatbot_def cache_ok_def)

section \<open>What a call changes in the memory and the counter\<close>





lemma process_query_error_count:
  "error_count (fst (snd (process_query E query sid s)))
     = (case cache_hit query s of
          Some cached \<Rightarrow> error_count s
        | None \<Rightarrow>
            if is_destructive_query query then error_count s
            else (case fst (query_pipeline E query sid s) of
                    Inl e \<Rightarrow> Suc (error_count s)
                  | Inr response \<Rightarrow> 0))"
proof -
  obtain res s1 tr where p: "query_pipeline E query sid s = (res, s1, tr)"
    by (cases "query_pipeline E query sid s")
  from query_pipeline_cases [OF p] have "error_count s1 = error_count s"
    by simp
  with p show ?thesis
    by (auto simp: process_query_def split: option.splits sum.splits prod.splits
        dest!: handle_errorD)
qed

section \<open>Counting and the most frequent key\<close>

lemma counts_ok_bump:
  assumes "counts_ok keys acc"
  shows "counts_ok (keys @ [k]) (bump k acc)"
proof -
  from assms have d: "distinct (map fst acc)"
    and m: "map_of acc = (\<lambda>k. if k \<in> set keys then Some (count_list keys k) else None)"
    by (simp_all add: counts_ok_def)
  have "distinct (map fst (bump k acc))"
    using d by (simp add: bump_def distinct_update)
  moreover have "map_of (bump k acc)
                   = (\<lambda>k'. if k' \<in> set (keys @ [k]) then Some (count_list (keys @ [k]) k')
                            else None)"
    by (rule ext) (simp add: bump_def update_conv' m)
  ultimately show ?thesis
    by (simp add: counts_ok_def)
qed

lemma counts_ok_fold:
  "counts_ok pre acc \<Longrightarrow> counts_ok (pre @ keys) (fold bump keys acc)"
proof (induction keys arbitrary: pre acc)
  case Nil
  then show ?case by simp
next
  case (Cons k keys)
  from Cons.prems have "counts_ok (pre @ [k]) (bump k acc)"
    by (rule counts_ok_bump)
  then have "counts_ok ((pre @ [k]) @ keys) (fold bump keys (bump k acc))"
    by (rule Cons.IH)
  then show ?case by simp
qed

lemma counts_ok_entries:
  assumes "counts_ok keys acc"
  shows "(k, n) \<in> set acc \<longleftrightarrow> k \<in> set keys \<and> n = count_list keys k"
proof -
  from assms have d: "distinct (map fst acc)"
    and m: "map_of acc = (\<lambda>k. if k \<in> set keys then Some (count_list keys k) else None)"
    by (simp_all add: counts_ok_def)
  from d have "(k, n) \<in> set acc \<longleftrightarrow> map_of acc k = Some n"
    by simp
  also have "\<dots> \<longleftrightarrow> k \<in> set keys \<and> n = count_list keys k"
    by (auto simp: m)
  finally show ?thesis .
qed

lemma fold_max_by_count:
  fixes x :: "string \<times> nat"
  shows "fold (\<lambda>y best. if snd best < snd y then y else best) xs x \<in> insert x (set xs)
   \<and> snd x \<le> snd (fold (\<lambda>y best. if snd best < snd y then y else best) xs x)
   \<and> (\<forall>y\<in>set xs. snd y \<le> snd (fold (\<lambda>y best. if snd best < snd y then y else best) xs x))"
proof (induction xs arbitrary: x)
  case Nil
  then show ?case by simp
next
  case (Cons a xs)
  let ?f = "\<lambda>y best. if snd best < snd (y :: string \<times> nat) then y else best"
  show ?case
  proof (cases "snd x < snd a")
    case True
    with Cons.IH [of a] show ?thesis by auto
  next
    case False
    with Cons.IH [of x] show ?thesis by auto
  qed
qed

lemma max_by_count_greatest:
  assumes "items \<noteq> []"
  shows "max_by_count items dflt \<in> set items
       \<and> (\<forall>y\<in>set items. snd y \<le> snd (max_by_count items dflt))"
proof -
  from assms obtain x xs where items: "items = x # xs"
    by (cases items) auto
  from fold_max_by_count [of xs x] show ?thesis
    unfolding items by auto
qed

lemma top_of_counts:
  assumes "counts_ok keys acc"
  shows "top_of keys dflt (max_by_count acc dflt)"
proof (cases "keys = []")
  case True
  with assms have "acc = []"
    using counts_ok_entries [OF assms] by (cases acc) auto
  with True show ?thesis
    by (simp add: top_of_def)
next
  case False
  then obtain k where "k \<in> set keys"
    by (cases keys) auto
  then have "(k, count_list keys k) \<in> set acc"
    using counts_ok_entries [OF assms] by simp
  then have "acc \<noteq> []" by auto
  then have best: "max_by_count acc dflt \<in> set acc"
    and greatest: "\<forall>y\<in>set acc. snd y \<le> snd (max_by_count acc dflt)"
    using max_by_count_greatest by blast+
  obtain b n where bn: "max_by_count acc dflt = (b, n)"
    by (cases "max_by_count acc dflt")
  with best have "b \<in> set keys" "n = count_list keys b"
    using counts_ok_entries [OF assms] by auto
  moreover have "count_list keys k' \<le> n" if "k' \<in> set keys" for k'
  proof -
    from that have "(k', count_list keys k') \<in> set acc"
      using counts_ok_entries [OF assms] by simp
    with greatest bn show ?thesis by fastforce
  qed
  ultimately show ?thesis
    using False bn by (simp add: top_of_def)
qed

lemma counts_ok_empty: "counts_ok [] []"
  by (simp add: counts_ok_def)

section \<open>The enrichment loop on text fields\<close>

lemma text_values_Cons:
  "text_values key (rec # recs)
     = (if str_of (row_get rec key (SStr [])) = [] then []
        else [str_of (row_get rec key (SStr []))]) @ text_values key recs"
  by (simp add: text_values_def)

lemma tally_damage_text:
  assumes "text_or_null (row_get rec ''damage_descriptions'' (SStr []))"
  shows "tally_damage rec t
           = Inr (t\<lparr>damage_types := fold bump (categories [rec]) (damage_types t)\<rparr>)"
  using assms
  by (cases "row_get rec ''damage_descriptions'' (SStr [])")
    (simp_all add: tally_damage_def categories_def text_values_def)

lemma tally_inspector_text:
  assumes "text_or_null (row_get rec ''inspector_name'' (SStr []))"
  shows "tally_inspector rec t
           = Inr (t\<lparr>inspectors := fold bump (inspector_keys [rec]) (inspectors t)\<rparr>)"
  using assms
  by (cases "row_get rec ''inspector_name'' (SStr [])")
    (simp_all add: tally_inspector_def inspector_keys_def text_values_def)

lemma tally_record_text:
  assumes "text_fields [rec]"
  shows "tally_record rec t
           = Inr \<lparr>seen_files = (if truthy (row_get rec ''source_file'' SNull)
                                then List.insert (row_get rec ''source_file'' SNull) (seen_files t)
                                else seen_files t),
                  damage_types = fold bump (categories [rec]) (damage_types t),
                  inspectors = fold bump (inspector_keys [rec]) (inspectors t)\<rparr>"
  using assms
  by (simp add: tally_record_def text_fields_def tally_damage_text tally_inspector_text
      tally_source_def Let_def)

lemma categories_Cons: "categories (rec # recs) = categories [rec] @ categories recs"
  by (simp add: categories_def text_values_def)

lemma inspector_keys_Cons:
  "inspector_keys (rec # recs) = inspector_keys [rec] @ inspector_keys recs"
  by (simp add: inspector_keys_def text_values_def)

lemma file_values_Cons:
  "file_values (rec # recs)
     = (if truthy (row_get rec ''source_file'' SNull) then [row_get rec ''source_file'' SNull]
        else []) @ file_values recs"
  by (simp add: file_values_def)

lemma tally_all_text:
  assumes "text_fields results"
  shows "\<exists>t'. tally_all results t = Inr t'
             \<and> set (seen_files t') = set (seen_files t) \<union> set (file_values results)
             \<and> (distinct (seen_files t) \<longrightarrow> distinct (seen_files t'))
             \<and> damage_types t' = fold bump (categories results) (damage_types t)
             \<and> inspectors t' = fold bump (inspector_keys results) (inspectors t)"
  using assms
proof (induction results arbitrary: t)
  case Nil
  then show ?case
    by (simp add: file_values_def categories_def inspector_keys_def text_values_def)
next
  case (Cons rec recs)
  from Cons.prems have one: "text_fields [rec]" and rest: "text_fields recs"
    by (simp_all add: text_fields_def)
  let ?t1 = "\<lparr>seen_files = (if truthy (row_get rec ''source_file'' SNull)
                              then List.insert (row_get rec ''source_file'' SNull) (seen_files t)
                              else seen_files t),
                damage_types = fold bump (categories [rec]) (damage_types t),
                inspectors = fold bump (inspector_keys [rec]) (inspectors t)\<rparr>"
  have step: "tally_record rec t = Inr ?t1"
    using one by (rule tally_record_text)
  from Cons.IH [OF rest, of ?t1] obtain t' where t':
    "tally_all recs ?t1 = Inr t'"
    "set (seen_files t') = set (seen_files ?t1) \<union> set (file_values recs)"
    "distinct (seen_files ?t1) \<longrightarrow> distinct (seen_files t')"
    "damage_types t' = fold bump (categories recs) (damage_types ?t1)"
    "inspectors t' = fold bump (inspector_keys recs) (inspectors ?t1)"
    by blast
  have "tally_all (rec # recs) t = Inr t'"
    using step t'(1) by simp
  moreover have "set (seen_files t') = set (seen_files t) \<union> set (file_values (rec # recs))"
    using t'(2) by (auto simp: file_values_Cons)
  moreover have "distinct (seen_files t) \<longrightarrow> distinct (seen_files t')"
    using t'(3) by simp
  moreover have "damage_types t' = fold bump (categories (rec # recs)) (damage_types t)"
    using t'(4) by (simp add: categories_Cons [of rec recs])
  moreover have "inspectors t' = fold bump (inspector_keys (rec # recs)) (inspectors t)"
    using t'(5) by (simp add: inspector_keys_Cons [of rec recs])
  ultimately show ?case by blast
qed

lemma file_values_text:
  assumes "text_fields results" and "v \<in> set (file_values results)"
  shows "is_str v"
proof -
  from assms obtain rec where "rec \<in> set results" "v = row_get rec ''source_file'' SNull"
    "truthy v"
    by (auto simp: file_values_def)
  with assms(1) have "text_or_null v"
    by (auto simp: text_fields_def list_all_iff)
  with \<open>truthy v\<close> show ?thesis
    by (cases v) simp_all
qed

lemma SStr_str_of: "is_str v \<Longrightarrow> SStr (str_of v) = v"
  by (cases v) simp_all

lemma py_sorted_texts:
  assumes "\<forall>v\<in>set xs. is_str v" and "distinct xs"
  shows "py_sorted xs = Inr (map SStr (sort (remdups (map str_of xs))))"
proof -
  have inj: "inj_on str_of (set xs)"
  proof (rule inj_onI)
    fix a b
    assume "a \<in> set xs" "b \<in> set xs" "str_of a = str_of b"
    with assms(1) show "a = b"
      by (metis SStr_str_of)
  qed
  then have "distinct (map str_of xs)"
    using assms(2) by (simp add: distinct_map)
  then have r: "remdups (map str_of xs) = map str_of xs"
    by (rule distinct_remdups_id)
  show ?thesis
  proof (cases "length xs \<le> 1")
    case True
    then consider "xs = []" | v where "xs = [v]"
      by (cases xs) (auto simp: length_Suc_conv)
    then show ?thesis
    proof cases
      case 1
      then show ?thesis by (simp add: py_sorted_def)
    next
      case 2
      with assms(1) show ?thesis
        by (simp add: py_sorted_def SStr_str_of)
    qed
  next
    case False
    with assms(1) show ?thesis
      by (simp add: py_sorted_def r list_all_iff)
  qed
qed

section \<open>Destructive-intent guard\<close>

text \<open>
  Claim C2. A query whose lowercased text contains one of the six denylisted words is
  answered with the fixed refusal, whatever calls of \<open>process_query\<close> the chatbot has
  served since it was created: the call makes no request at all to a collaborator (so none
  to SQL synthesis) and leaves the state as it was.
\<close>

theorem C2_destructive_guard:
  assumes "is_destructive_query query"
  shows "process_query E query session_id (run calls VehicleChatbot)
           = (refusal_message, run calls VehicleChatbot, [])"
proof -
  have "cache_ok (query_cache (run calls VehicleChatbot))"
    using cache_ok_initial by (rule run_cache_ok)
  then have "cache_hit query (run calls VehicleChatbot) = None"
    using assms by (rule destructive_not_cached)
  with assms show ?thesis
    by (simp add: process_query_def)
qed

theorem C2_destructive_guard_witness:
  "is_destructive_query ''Please DROP the table''
   \<and> query_cache (run [(sample_env two_ramps, ''list ramps'', Some ''s1'')] VehicleChatbot)
       = [(''list ramps'', ''Found 2 ramps.'')]
   \<and> process_query (sample_env two_ramps) ''Please DROP the table'' (Some ''s1'')
         (run [(sample_env two_ramps, ''list ramps'', Some ''s1'')] VehicleChatbot)
       = (refusal_message,
          run [(sample_env two_ramps, ''list ramps'', Some ''s1'')] VehicleChatbot, [])"
proof -
  have destructive: "is_destructive_query ''Please DROP the table''"
    by code_simp
  have cached: "query_cache (run [(sample_env two_ramps, ''list ramps'', Some ''s1'')]
                               VehicleChatbot)
                  = [(''list ramps'', ''Found 2 ramps.'')]"
    by code_simp
  have "process_query (sample_env two_ramps) ''Please DROP the table'' (Some ''s1'')
          (run [(sample_env two_ramps, ''list ramps'', Some ''s1'')] VehicleChatbot)
        = (refusal_message,
           run [(sample_env two_ramps, ''list ramps'', Some ''s1'')] VehicleChatbot, [])"
    using destructive by (rule C2_destructive_guard)
  with destructive cached show ?thesis
    by (simp only: simp_thms)
qed

section \<open>Cache replay\<close>

lemma get_cached_response_update_same:
  assumes "get_cached_response q cache = None" and "strip (lower q') = strip (lower q)"
  shows "get_cached_response q' (AList.update q r cache) = Some r"
  using assms
  by (induction cache) (auto simp: get_cached_response_def split: if_splits)

lemma get_cached_response_update_other:
  assumes "strip (lower q') \<noteq> strip (lower q)"
  shows "get_cached_response q (AList.update q' r' cache) = get_cached_response q cache"
  using assms
  by (induction cache) (auto simp: get_cached_response_def split: if_splits)

lemma cache_miss_ok:
  assumes "cache_ok (query_cache s)" and "cache_hit query s = None"
  shows "get_cached_response query (query_cache s) = None"
proof (cases "get_cached_response query (query_cache s)")
  case None
  then show ?thesis .
next
  case (Some r)
  with assms(2) have "r = []"
    by (simp add: cache_hit_def split: if_splits)
  moreover from Some obtain q where "(q, r) \<in> set (query_cache s)"
    using get_cached_response_SomeD by blast
  ultimately show ?thesis
    using assms(1) by (auto simp: cache_ok_def)
qed

lemma process_query_keeps_cached:
  assumes ok: "cache_ok (query_cache s)"
    and hit: "get_cached_response q (query_cache s) = Some r"
  shows "get_cached_response q (query_cache (fst (snd (process_query E q' sid s)))) = Some r"
proof -
  obtain resp s' tr where p: "process_query E q' sid s = (resp, s', tr)"
    by (cases "process_query E q' sid s")
  show ?thesis
  proof (cases "formatted tr")
    case False
    with process_query_cases [OF p] hit p show ?thesis by simp
  next
    case True
    with process_query_cases [OF p]
    have miss: "cache_hit q' s = None"
      and upd: "query_cache s' = AList.update q' resp (query_cache s)"
      by simp_all
    from ok miss have "get_cached_response q' (query_cache s) = None"
      by (rule cache_miss_ok)
    with hit have "strip (lower q') \<noteq> strip (lower q)"
      by (auto simp: get_cached_response_def)
    then have "get_cached_response q (AList.update q' resp (query_cache s))
                 = get_cached_response q (query_cache s)"
      by (rule get_cached_response_update_other)
    with upd hit p show ?thesis by simp
  qed
qed

lemma run_keeps_cached:
  assumes "cache_ok (query_cache s)" and "get_cached_response q (query_cache s) = Some r"
  shows "get_cached_response q (query_cache (run calls s)) = Some r"
  using assms
proof (induction calls arbitrary: s)
  case Nil
  then show ?case by simp
next
  case (Cons c calls)
  obtain E q' sid where c: "c = (E, q', sid)"
    by (cases c) auto
  let ?s = "fst (snd (process_query E q' sid s))"
  have "cache_ok (query_cache ?s)"
    using Cons.prems(1) by (rule process_query_cache_ok)
  moreover have "get_cached_response q (query_cache ?s) = Some r"
    using Cons.prems by (rule process_query_keeps_cached)
  ultimately show ?case
    using Cons.IH c by simp
qed

text \<open>
  Claim C5. On a chatbot that has served any calls since it was created, let a call for
  \<open>q1\<close> run the full flow (it formatted a response) and return \<open>r1\<close>. Then, after any
  further calls in between, a call for a query equal to \<open>q1\<close> after lowercasing and
  stripping returns \<open>r1\<close> again, makes no request to the LLM oracle, the database or the
  index, and leaves the state as it was.
\<close>

theorem C5_cache_replay:
  assumes first: "process_query E1 q1 sid1 (run before VehicleChatbot) = (r1, s1, tr1)"
    and full: "formatted tr1"
    and same: "strip (lower q2) = strip (lower q1)"
  shows "process_query E2 q2 sid2 (run between s1) = (r1, run between s1, [])"
proof -
  let ?s0 = "run before VehicleChatbot"
  have ok0: "cache_ok (query_cache ?s0)"
    using cache_ok_initial by (rule run_cache_ok)
  from process_query_cases [OF first] full
  have miss: "cache_hit q1 ?s0 = None" and r1: "r1 \<noteq> []"
    and upd: "query_cache s1 = AList.update q1 r1 (query_cache ?s0)"
    by simp_all
  have "get_cached_response q1 (query_cache ?s0) = None"
    using ok0 miss by (rule cache_miss_ok)
  then have "get_cached_response q2 (AList.update q1 r1 (query_cache ?s0)) = Some r1"
    using same by (rule get_cached_response_update_same)
  then have hit1: "get_cached_response q2 (query_cache s1) = Some r1"
    using upd by simp
  have "cache_ok (query_cache (fst (snd (process_query E1 q1 sid1 ?s0))))"
    using ok0 by (rule process_query_cache_ok)
  then have ok1: "cache_ok (query_cache s1)"
    using first by simp
  have "get_cached_response q2 (query_cache (run between s1)) = Some r1"
    using ok1 hit1 by (rule run_keeps_cached)
  then have "cache_hit q2 (run between s1) = Some r1"
    using r1 by (simp add: cache_hit_def)
  then show ?thesis
    by (simp add: process_query_def)
qed

theorem C5_cache_replay_witness:
  "formatted (snd (snd (process_query (sample_env two_ramps) ''list ramps'' (Some ''s1'')
                          (run [] VehicleChatbot))))
   \<and> strip (lower ''  LIST Ramps '') = strip (lower ''list ramps'')
   \<and> fst (process_query (sample_env no_rows) ''  LIST Ramps '' None
            (run [(sample_env no_rows, ''count vins'', None)]
               (fst (snd (process_query (sample_env two_ramps) ''list ramps'' (Some ''s1'')
                            (run [] VehicleChatbot)))))) = ''Found 2 ramps.''
   \<and> snd (snd (process_query (sample_env no_rows) ''  LIST Ramps '' None
            (run [(sample_env no_rows, ''count vins'', None)]
               (fst (snd (process_query (sample_env two_ramps) ''list ramps'' (Some ''s1'')
                            (run [] VehicleChatbot))))))) = []"
proof -
  let ?p = "process_query (sample_env two_ramps) ''list ramps'' (Some ''s1'')
              (run [] VehicleChatbot)"
  have first: "?p = (fst ?p, fst (snd ?p), snd (snd ?p))"
    by simp
  have full: "formatted (snd (snd ?p))"
    by code_simp
  have same: "strip (lower ''  LIST Ramps '') = strip (lower ''list ramps'')"
    by code_simp
  have r1: "fst ?p = ''Found 2 ramps.''"
    by code_simp
  have "process_query (sample_env no_rows) ''  LIST Ramps '' None
          (run [(sample_env no_rows, ''count vins'', None)] (fst (snd ?p)))
        = (fst ?p, run [(sample_env no_rows, ''count vins'', None)] (fst (snd ?p)), [])"
    using first full same by (rule C5_cache_replay)
  with full same r1 show ?thesis
    by (simp only: fst_conv snd_conv simp_thms)
qed

section \<open>Routing default\<close>

text \<open>
  Claim C4 fails as stated. \<open>route_query\<close> catches \<open>json.JSONDecodeError\<close> only. On a
  routing answer that is a run of a thousand \<open>[\<close>, a text that is not parseable as JSON,
  \<open>json.loads\<close> raises \<open>RecursionError\<close>, and \<open>route_query\<close> raises it in turn: it
  returns no decision.
\<close>

theorem C4_counterexample:
  "generate deep_env (RouteRequest (preprocess_query ''scratches near the door''))
     = Some (replicate 1000 (CHR ''[''))
   \<and> json_loads deep_env (replicate 1000 (CHR ''[''))
     = Inl (RecursionError
              ''maximum recursion depth exceeded while decoding a JSON array from a unicode string'')
   \<and> fst (route_query deep_env ''scratches near the door'')
     = Inl (RecursionError
              ''maximum recursion depth exceeded while decoding a JSON array from a unicode string'')"
  by (simp add: deep_env_def route_query_def Let_def)

text \<open>
  Claim C4 as amended. When the oracle's routing answer is absent, empty, or a text on
  which \<open>json.loads\<close> raises \<open>JSONDecodeError\<close>, \<open>route_query\<close> raises nothing and returns a
  decision whose \<open>use_semantic\<close> is \<open>False\<close>, with a reason; the orchestrator's logging of
  the decision raises nothing either, and no semantic search is made for it. When
  \<open>json.loads\<close> raises any other exception on the answer, \<open>route_query\<close> does not catch
  it: the exception leaves \<open>route_query\<close> and the pipeline, for the handler of
  \<open>process_query\<close>; no path is selected.
\<close>

theorem C4_routing_default:
  "(generate E (RouteRequest (preprocess_query query)) = None
      \<or> (\<exists>text. generate E (RouteRequest (preprocess_query query)) = Some text
               \<and> (text = [] \<or> (\<exists>msg. json_loads E text = Inl (JSONDecodeError msg))))
    \<longrightarrow> (\<exists>reason. fst (route_query E query)
                      = Inr (JObj [(''use_semantic'', JBool False), (''reason'', JStr reason)])
                  \<and> fst (chatbot_route_query E query) = fst (route_query E query)
                  \<and> get_semantic_matches E query
                       (JObj [(''use_semantic'', JBool False), (''reason'', JStr reason)])
                      = (Inr None, [])))
   \<and> (generate E (RouteRequest (preprocess_query query)) = Some text \<and> text \<noteq> []
        \<and> json_loads E text = Inl e \<and> (\<forall>msg. e \<noteq> JSONDecodeError msg)
      \<longrightarrow> fst (route_query E query) = Inl e
          \<and> fst (query_pipeline E query sid s) = Inl e)"
proof (intro conjI impI)
  assume "generate E (RouteRequest (preprocess_query query)) = None
      \<or> (\<exists>text. generate E (RouteRequest (preprocess_query query)) = Some text
               \<and> (text = [] \<or> (\<exists>msg. json_loads E text = Inl (JSONDecodeError msg))))"
  then have "fst (route_query E query) = Inr fallback_route
           \<or> fst (route_query E query) = Inr invalid_route"
    by (auto simp: route_query_def Let_def)
  then show "\<exists>reason. fst (route_query E query)
                      = Inr (JObj [(''use_semantic'', JBool False), (''reason'', JStr reason)])
                  \<and> fst (chatbot_route_query E query) = fst (route_query E query)
                  \<and> get_semantic_matches E query
                       (JObj [(''use_semantic'', JBool False), (''reason'', JStr reason)])
                      = (Inr None, [])"
  proof
    assume r: "fst (route_query E query) = Inr fallback_route"
    then have "fst (chatbot_route_query E query) = fst (route_query E query)"
      by (cases "route_query E query") (simp add: chatbot_route_query_def fallback_route_def)
    with r show ?thesis
      by (simp add: fallback_route_def get_semantic_matches_def)
  next
    assume r: "fst (route_query E query) = Inr invalid_route"
    then have "fst (chatbot_route_query E query) = fst (route_query E query)"
      by (cases "route_query E query") (simp add: chatbot_route_query_def invalid_route_def)
    with r show ?thesis
      by (simp add: invalid_route_def get_semantic_matches_def)
  qed
next
  assume a: "generate E (RouteRequest (preprocess_query query)) = Some text \<and> text \<noteq> []
        \<and> json_loads E text = Inl e \<and> (\<forall>msg. e \<noteq> JSONDecodeError msg)"
  then show r: "fst (route_query E query) = Inl e"
    by (cases e) (simp_all add: route_query_def Let_def)
  then show "fst (query_pipeline E query sid s) = Inl e"
    by (cases "route_query E query")
      (simp add: query_pipeline_def chatbot_route_query_def)
qed

theorem C4_routing_default_witness:
  "generate ((sample_env two_ramps)\<lparr>generate := \<lambda>request. Some ''use semantic, maybe''\<rparr>)
       (RouteRequest (preprocess_query ''scratches near the door'')) = Some ''use semantic, maybe''
   \<and> json_loads ((sample_env two_ramps)\<lparr>generate := \<lambda>request. Some ''use semantic, maybe''\<rparr>)
       ''use semantic, maybe'' = Inl (JSONDecodeError ''Expecting value'')
   \<and> fst (route_query ((sample_env two_ramps)\<lparr>generate := \<lambda>request. Some ''use semantic, maybe''\<rparr>)
            ''scratches near the door'')
       = Inr (JObj [(''use_semantic'', JBool False), (''reason'', JStr ''Invalid response'')])
   \<and> fst (query_pipeline deep_env ''scratches near the door'' None VehicleChatbot)
       = Inl (RecursionError
                ''maximum recursion depth exceeded while decoding a JSON array from a unicode string'')"
proof -
  let ?E = "(sample_env two_ramps)\<lparr>generate := \<lambda>request. Some ''use semantic, maybe''\<rparr>"
  let ?deep = "RecursionError
    ''maximum recursion depth exceeded while decoding a JSON array from a unicode string''"
  have g: "generate ?E (RouteRequest (preprocess_query ''scratches near the door''))
             = Some ''use semantic, maybe''"
    by simp
  have j: "json_loads ?E ''use semantic, maybe'' = Inl (JSONDecodeError ''Expecting value'')"
    by (simp add: sample_env_def)
  have "generate ?E (RouteRequest (preprocess_query ''scratches near the door'')) = None
      \<or> (\<exists>text. generate ?E (RouteRequest (preprocess_query ''scratches near the door''))
                    = Some text
               \<and> (text = [] \<or> (\<exists>msg. json_loads ?E text = Inl (JSONDecodeError msg))))"
    using g j by blast
  with C4_routing_default [of ?E "''scratches near the door''"] obtain reason where
    "fst (route_query ?E ''scratches near the door'')
       = Inr (JObj [(''use_semantic'', JBool False), (''reason'', JStr reason)])"
    by blast
  moreover have "fst (route_query ?E ''scratches near the door'') = Inr invalid_route"
    using g j by (simp add: route_query_def Let_def)
  ultimately have decided: "fst (route_query ?E ''scratches near the door'')
       = Inr (JObj [(''use_semantic'', JBool False), (''reason'', JStr ''Invalid response'')])"
    by (simp add: invalid_route_def)
  have "generate deep_env (RouteRequest (preprocess_query ''scratches near the door''))
          = Some (replicate 1000 (CHR ''['')) \<and> replicate 1000 (CHR ''['') \<noteq> []
        \<and> json_loads deep_env (replicate 1000 (CHR ''['')) = Inl ?deep
        \<and> (\<forall>msg. ?deep \<noteq> JSONDecodeError msg)"
    by (simp add: deep_env_def)
  with C4_routing_default [of deep_env "''scratches near the door''"
      "replicate 1000 (CHR ''['')" ?deep None VehicleChatbot]
  have raised: "fst (query_pipeline deep_env ''scratches near the door'' None VehicleChatbot)
                  = Inl ?deep"
    by blast
  from g j decided raised show ?thesis
    by (simp only: simp_thms)
qed

section \<open>Session expiry\<close>

lemma get_history_absent:
  "sessions m sid = None \<Longrightarrow>
     fst (get_history now sid n m) = [] \<and> sessions (snd (get_history now sid n m)) sid = None"
  by (simp add: get_history_def Let_def clean_expired_def)

lemma get_history_expired:
  assumes "sessions m sid = Some d" and "now - last_accessed d > ttl m"
  shows "fst (get_history now sid n m) = []"
    and "sessions (snd (get_history now sid n m)) sid = None"
  using assms by (simp_all add: get_history_def Let_def clean_expired_def)

lemma stored_absent: "sessions m sid = None \<Longrightarrow> stored m sid = {}"
  by (simp add: stored_def)

lemma stored_clean_expired: "stored (clean_expired now m) sid \<subseteq> stored m sid"
  by (auto simp: stored_def clean_expired_def split: option.splits if_splits)

lemma set_last_slice: "set (last_slice n xs) \<subseteq> set xs"
  by (auto simp: last_slice_def dest: in_set_dropD)

lemma get_history_stored: "set (fst (get_history now sid n m)) \<subseteq> stored m sid"
proof -
  have "set (fst (get_history now sid n m)) \<subseteq> stored (clean_expired now m) sid"
    using set_last_slice
    by (fastforce simp: get_history_def Let_def stored_def split: option.splits)
  then show ?thesis
    using stored_clean_expired by blast
qed

lemma add_message_stored:
  "stored (add_message t1 t2 t3 t4 sid' r c m) sid
     \<subseteq> stored m sid \<union> set (added_by sid (Add t1 t2 t3 t4 sid' r c))"
  using stored_clean_expired [of t1 m sid]
  by (auto simp: add_message_def Let_def stored_def split: option.splits if_splits)

lemma apply_op_stored:
  "stored (apply_op operation m) sid \<subseteq> stored m sid \<union> set (added_by sid operation)"
proof (cases operation)
  case (Lookup now sid' n)
  then have "apply_op operation m = clean_expired now m"
    by (simp add: get_history_def Let_def split: option.splits)
  then show ?thesis
    using stored_clean_expired [of now m sid] by auto
next
  case (Add t1 t2 t3 t4 sid' r c)
  then show ?thesis
    using add_message_stored [of t1 t2 t3 t4 sid' r c m sid] by simp
next
  case (Clear sid')
  then show ?thesis
    by (auto simp: clear_session_def stored_def split: option.splits if_splits)
qed

lemma apply_ops_stored:
  "stored (apply_ops ops m) sid \<subseteq> stored m sid \<union> set (added_under sid ops)"
  unfolding apply_ops_def
proof (induction ops arbitrary: m)
  case Nil
  then show ?case by (simp add: added_under_def)
next
  case (Cons operation ops)
  have "stored (fold apply_op ops (apply_op operation m)) sid
          \<subseteq> stored (apply_op operation m) sid \<union> set (added_under sid ops)"
    by (rule Cons.IH)
  also have "\<dots> \<subseteq> (stored m sid \<union> set (added_by sid operation)) \<union> set (added_under sid ops)"
    using apply_op_stored [of operation m sid] by blast
  finally show ?case
    by (auto simp: added_under_def)
qed

lemma added_under_others:
  assumes "\<forall>operation\<in>set ops. is_add operation \<longrightarrow> op_key operation \<noteq> sid"
  shows "added_under sid ops = []"
  using assms
proof (induction ops)
  case Nil
  then show ?case by (simp add: added_under_def)
next
  case (Cons operation ops)
  then show ?case
    by (cases operation) (auto simp: added_under_def)
qed

lemma add_message_expired:
  assumes "sessions m sid = Some d" and "now - last_accessed d > ttl m"
  shows "sessions (add_message now t2 t3 t4 sid r c m) sid
           = Some \<lparr>history = [\<lparr>role = r, content = c, timestamp = t3\<rparr>],
                   created = t2, last_accessed = t4\<rparr>"
  using assms by (simp add: add_message_def Let_def clean_expired_def)

text \<open>
  Claim C7 fails as stated. After the idle window of a session has passed and a history
  lookup has deleted it, a message added under the same key creates a new session, and
  the next history lookup for the key returns that message, not the empty list.
\<close>

theorem C7_counterexample:
  "sessions (add_message 0 0 0 0 ''s1'' ''user'' ''hi'' (ConversationMemory 60)) ''s1''
     = Some \<lparr>history = [\<lparr>role = ''user'', content = ''hi'', timestamp = 0\<rparr>],
             created = 0, last_accessed = 0\<rparr>
   \<and> 3600000001 - (0::int) > ttl (add_message 0 0 0 0 ''s1'' ''user'' ''hi'' (ConversationMemory 60))
   \<and> fst (get_history 3600000001 ''s1'' 10
            (add_message 0 0 0 0 ''s1'' ''user'' ''hi'' (ConversationMemory 60))) = []
   \<and> fst (get_history 3600000003 ''s1'' 10
        (add_message 3600000002 3600000002 3600000002 3600000002 ''s1'' ''user'' ''back''
          (snd (get_history 3600000001 ''s1'' 10
            (add_message 0 0 0 0 ''s1'' ''user'' ''hi'' (ConversationMemory 60))))))
       = [\<lparr>role = ''user'', content = ''back'', timestamp = 3600000002\<rparr>]"
  by (simp add: get_history_def add_message_def Let_def clean_expired_def ConversationMemory_def
      last_slice_def)

text \<open>
  Claim C7 as amended. A session whose last access lies more than the idle window before the
  clock reading of a history lookup is deleted by that lookup, which returns the empty list.
  Every later history lookup for the key, whatever its clock reading and whatever operations
  on the memory come in between, returns only messages added under the key since; so it
  returns the empty list as long as no message is added under the key. A message added
  under the key after the idle window has passed starts a new session that holds this
  message alone, for \<open>add_message\<close> sweeps the expired session first; lookups after that
  return only this message and later ones. So no message of the expired session appears in
  a history lookup after its idle window has passed. The default window of the constructor
  is 60 minutes.
\<close>

theorem C7_session_ttl:
  assumes "sessions m sid = Some d" and "now - last_accessed d > ttl m"
  shows "fst (get_history now sid n m) = []
       \<and> sessions (snd (get_history now sid n m)) sid = None
       \<and> set (fst (get_history now' sid n' (apply_ops ops (snd (get_history now sid n m)))))
           \<subseteq> set (added_under sid ops)
       \<and> ((\<forall>operation\<in>set ops. is_add operation \<longrightarrow> op_key operation \<noteq> sid)
            \<longrightarrow> fst (get_history now' sid n' (apply_ops ops (snd (get_history now sid n m)))) = [])
       \<and> sessions (add_message now t2 t3 t4 sid r c m) sid
           = Some \<lparr>history = [\<lparr>role = r, content = c, timestamp = t3\<rparr>],
                   created = t2, last_accessed = t4\<rparr>
       \<and> set (fst (get_history now' sid n' (apply_ops ops (add_message now t2 t3 t4 sid r c m))))
           \<subseteq> set (added_under sid (Add now t2 t3 t4 sid r c # ops))
       \<and> ttl (ConversationMemory 60) = 60 * 60 * 1000000"
proof -
  let ?m1 = "snd (get_history now sid n m)"
  let ?m2 = "add_message now t2 t3 t4 sid r c m"
  have first: "fst (get_history now sid n m) = []"
    using assms by (rule get_history_expired(1))
  have gone: "sessions ?m1 sid = None"
    using assms by (rule get_history_expired(2))
  have "set (fst (get_history now' sid n' (apply_ops ops ?m1))) \<subseteq> stored (apply_ops ops ?m1) sid"
    by (rule get_history_stored)
  also have "\<dots> \<subseteq> stored ?m1 sid \<union> set (added_under sid ops)"
    by (rule apply_ops_stored)
  finally have later: "set (fst (get_history now' sid n' (apply_ops ops ?m1)))
                         \<subseteq> set (added_under sid ops)"
    using gone by (simp add: stored_absent)
  have quiet: "fst (get_history now' sid n' (apply_ops ops ?m1)) = []"
    if "\<forall>operation\<in>set ops. is_add operation \<longrightarrow> op_key operation \<noteq> sid"
    using later added_under_others [OF that] by simp
  have fresh: "sessions ?m2 sid
                 = Some \<lparr>history = [\<lparr>role = r, content = c, timestamp = t3\<rparr>],
                         created = t2, last_accessed = t4\<rparr>"
    using assms by (rule add_message_expired)
  have "set (fst (get_history now' sid n' (apply_ops ops ?m2))) \<subseteq> stored (apply_ops ops ?m2) sid"
    by (rule get_history_stored)
  also have "\<dots> \<subseteq> stored ?m2 sid \<union> set (added_under sid ops)"
    by (rule apply_ops_stored)
  also have "\<dots> = set (added_under sid (Add now t2 t3 t4 sid r c # ops))"
    using fresh by (simp add: stored_def added_under_def)
  finally have reuse: "set (fst (get_history now' sid n' (apply_ops ops ?m2)))
                         \<subseteq> set (added_under sid (Add now t2 t3 t4 sid r c # ops))" .
  from first gone later quiet fresh reuse show ?thesis
    by (simp add: ConversationMemory_def)
qed


theorem C7_session_ttl_witness:
  "sessions (add_message 0 0 0 0 ''s1'' ''user'' ''hi'' (ConversationMemory 60)) ''s1''
     = Some \<lparr>history = [\<lparr>role = ''user'', content = ''hi'', timestamp = 0\<rparr>],
             created = 0, last_accessed = 0\<rparr>
   \<and> 3600000001 - (0::int) > ttl (add_message 0 0 0 0 ''s1'' ''user'' ''hi'' (ConversationMemory 60))
   \<and> fst (get_history 3600000001 ''s1'' 10
            (add_message 0 0 0 0 ''s1'' ''user'' ''hi'' (ConversationMemory 60))) = []
   \<and> fst (get_history 5 ''s1'' 10
        (apply_ops [Lookup 7 ''s2'' 10, Add 8 8 8 8 ''s2'' ''user'' ''hello'']
          (snd (get_history 3600000001 ''s1'' 10
            (add_message 0 0 0 0 ''s1'' ''user'' ''hi'' (ConversationMemory 60)))))) = []
   \<and> sessions (add_message 3600000001 7 8 9 ''s1'' ''user'' ''back''
                 (add_message 0 0 0 0 ''s1'' ''user'' ''hi'' (ConversationMemory 60))) ''s1''
       = Some \<lparr>history = [\<lparr>role = ''user'', content = ''back'', timestamp = 8\<rparr>],
               created = 7, last_accessed = 9\<rparr>"
proof -
  let ?m = "add_message 0 0 0 0 ''s1'' ''user'' ''hi'' (ConversationMemory 60)"
  let ?d = "\<lparr>history = [\<lparr>role = ''user'', content = ''hi'', timestamp = 0\<rparr>],
             created = 0, last_accessed = 0\<rparr>"
  let ?ops = "[Lookup 7 ''s2'' 10, Add 8 8 8 8 ''s2'' ''user'' ''hello'']"
  have h1: "sessions ?m ''s1'' = Some ?d"
    by (simp add: add_message_def Let_def clean_expired_def ConversationMemory_def)
  have h2: "3600000001 - last_accessed ?d > ttl ?m"
    by (simp add: add_message_def Let_def clean_expired_def ConversationMemory_def)
  have h3: "\<forall>operation\<in>set ?ops. is_add operation \<longrightarrow> op_key operation \<noteq> ''s1''"
    by simp
  note expiry = C7_session_ttl [OF h1 h2, where n = 10 and now' = 5 and n' = 10 and ops = ?ops
      and ?t2.0 = 7 and ?t3.0 = 8 and ?t4.0 = 9 and r = "''user''" and c = "''back''"]
  from expiry have "fst (get_history 3600000001 ''s1'' 10 ?m) = []"
    by blast
  moreover from expiry h3
  have "fst (get_history 5 ''s1'' 10 (apply_ops ?ops (snd (get_history 3600000001 ''s1'' 10 ?m))))
          = []"
    by blast
  moreover from expiry
  have "sessions (add_message 3600000001 7 8 9 ''s1'' ''user'' ''back'' ?m) ''s1''
          = Some \<lparr>history = [\<lparr>role = ''user'', content = ''back'', timestamp = 8\<rparr>],
                  created = 7, last_accessed = 9\<rparr>"
    by blast
  ultimately show ?thesis
    using h1 h2 by simp
qed

section \<open>Error translation\<close>

text \<open>
  Claim C8. When an exception leaves the pipeline of a call, \<open>process_query\<close> returns (it
  propagates nothing) one of three fixed messages, chosen by the lowercased text of the
  exception: the temporarily-unavailable message when it contains \<open>connection\<close>; else the
  please-rephrase message when it contains \<open>syntax\<close> or \<open>sql\<close>; else the unexpected-error
  message. The error counter rises by one and the cache is untouched.
\<close>

theorem C8_error_translation:
  assumes "cache_hit query s = None" and "\<not> is_destructive_query query"
    and "fst (query_pipeline E query sid s) = Inl e"
  shows "fst (process_query E query sid s)
           = (if contains ''connection'' (lower (str_exn e)) then unavailable_message
              else if contains ''syntax'' (lower (str_exn e)) \<or> contains ''sql'' (lower (str_exn e))
              then rephrase_message
              else unexpected_message)
       \<and> fst (process_query E query sid s)
           \<in> {unavailable_message, rephrase_message, unexpected_message}
       \<and> error_count (fst (snd (process_query E query sid s))) = Suc (error_count s)
       \<and> query_cache (fst (snd (process_query E query sid s))) = query_cache s"
proof -
  obtain s1 tr where p: "query_pipeline E query sid s = (Inl e, s1, tr)"
    using assms(3) by (cases "query_pipeline E query sid s") auto
  obtain msg s2 where h: "handle_error E e query sid (s1\<lparr>error_count := Suc (error_count s1)\<rparr>)
                            = (msg, s2)"
    by (cases "handle_error E e query sid (s1\<lparr>error_count := Suc (error_count s1)\<rparr>)")
  from query_pipeline_cases [OF p] have s1: "error_count s1 = error_count s"
    "query_cache s1 = query_cache s"
    by (simp_all split: if_splits)
  from handle_errorD [OF h] s1 have
    "query_cache s2 = query_cache s" "error_count s2 = Suc (error_count s)"
    "msg = error_message (lower (str_exn e))"
    by simp_all
  moreover have "process_query E query sid s = (msg, s2, tr)"
    using assms(1,2) p h by (simp add: process_query_def)
  ultimately show ?thesis
    by (simp add: error_message_def)
qed

theorem C8_error_translation_witness:
  "cache_hit ''list ramps'' VehicleChatbot = None
   \<and> \<not> is_destructive_query ''list ramps''
   \<and> fst (query_pipeline (sample_env cursor_closed) ''list ramps'' (Some ''s1'') VehicleChatbot)
       = Inl (Raised ''connection already closed'')
   \<and> fst (process_query (sample_env cursor_closed) ''list ramps'' (Some ''s1'') VehicleChatbot)
       = unavailable_message
   \<and> error_count (fst (snd (process_query (sample_env cursor_closed) ''list ramps'' (Some ''s1'')
                                VehicleChatbot))) = 1"
proof -
  have miss: "cache_hit ''list ramps'' VehicleChatbot = None"
    by code_simp
  have harmless: "\<not> is_destructive_query ''list ramps''"
    by code_simp
  have raised: "fst (query_pipeline (sample_env cursor_closed) ''list ramps'' (Some ''s1'')
                       VehicleChatbot) = Inl (Raised ''connection already closed'')"
    by code_simp
  have conn: "contains ''connection'' (lower (str_exn (Raised ''connection already closed'')))"
    by code_simp
  have count: "error_count VehicleChatbot = 0"
    by (simp add: VehicleChatbot_def)
  from C8_error_translation [OF miss harmless raised] conn count
  have "fst (process_query (sample_env cursor_closed) ''list ramps'' (Some ''s1'') VehicleChatbot)
          = unavailable_message"
    and "error_count (fst (snd (process_query (sample_env cursor_closed) ''list ramps''
                                  (Some ''s1'') VehicleChatbot))) = 1"
    by simp_all
  with miss harmless raised show ?thesis
    by (simp only: simp_thms)
qed

section \<open>Empty result and execution error\<close>

text \<open>
  Claim C1, at a statement on which the driver's \<open>execute\<close> raises: \<open>execute_query\<close>
  returns \<open>None\<close> there and the empty list where the statement selects no row, so its
  caller can tell the two apart; but \<open>process_query\<close> answers both with the same
  empty-result suggestion, makes the same requests, and counts no error. The claim asks for
  the generic-error path on the first.
\<close>

theorem C1_error_answered_as_empty:
  "execute_query (sample_env sql_error) ''SELECT ramp FROM inspections LIMIT 1000;'' None
     = Inr None
   \<and> execute_query (sample_env no_rows) ''SELECT ramp FROM inspections LIMIT 1000;'' None
     = Inr (Some [])
   \<and> snd (snd (process_query (sample_env sql_error) ''list ramps'' None VehicleChatbot))
     = [LLMCall (RouteRequest ''list ramps''), LLMCall (SqlRequest ''list ramps'' None),
        DBCall ''SELECT ramp FROM inspections LIMIT 1000;'' None]
   \<and> fst (process_query (sample_env sql_error) ''list ramps'' None VehicleChatbot)
     = ''No matching records found. Try being more specific with your criteria.''
   \<and> fst (process_query (sample_env no_rows) ''list ramps'' None VehicleChatbot)
     = ''No matching records found. Try being more specific with your criteria.''
   \<and> error_count (fst (snd (process_query (sample_env sql_error) ''list ramps'' None
                                VehicleChatbot))) = 0"
proof -
  have "execute_query (sample_env sql_error) ''SELECT ramp FROM inspections LIMIT 1000;'' None
          = Inr None"
    by code_simp
  moreover
  have "execute_query (sample_env no_rows) ''SELECT ramp FROM inspections LIMIT 1000;'' None
          = Inr (Some [])"
    by code_simp
  moreover
  have "snd (snd (process_query (sample_env sql_error) ''list ramps'' None VehicleChatbot))
     = [LLMCall (RouteRequest ''list ramps''), LLMCall (SqlRequest ''list ramps'' None),
        DBCall ''SELECT ramp FROM inspections LIMIT 1000;'' None]"
    by code_simp
  moreover
  have "fst (process_query (sample_env sql_error) ''list ramps'' None VehicleChatbot)
     = ''No matching records found. Try being more specific with your criteria.''"
    by code_simp
  moreover
  have "fst (process_query (sample_env no_rows) ''list ramps'' None VehicleChatbot)
     = ''No matching records found. Try being more specific with your criteria.''"
    by code_simp
  moreover
  have "error_count (fst (snd (process_query (sample_env sql_error) ''list ramps'' None
                                VehicleChatbot))) = 0"
    by code_simp
  ultimately show ?thesis
    by (simp only: simp_thms)
qed

section \<open>SQL post-processing\<close>

text \<open>The result of \<open>_clean_sql\<close> is one statement: a text free of semicolons, and one semicolon.\<close>

lemma clean_sql_first_statement:
  "\<exists>body. clean_sql raw_sql = body @ '';'' \<and> CHR '';'' \<notin> set body"
proof -
  have "CHR '';'' \<notin> set (takeWhile (\<lambda>c. c \<noteq> CHR '';'') sql)" for sql
    by (auto dest: set_takeWhileD)
  then show ?thesis
    unfolding clean_sql_def Let_def by blast
qed

text \<open>
  Claim C3, at a statement that ends in a semicolon and has no row limit: \<open>_clean_sql\<close>
  rewrites the exact-match predicate on the free-text column \<open>ramp\<close> and keeps the first
  statement only, but the row limit it appends after the semicolon is cut off with the
  rest, so the result has none; the same happens to the first of two statements. Without
  the semicolon the limit stays. The claim asks for a row limit on every statement that
  lacks one.
\<close>

theorem C3_limit_lost_after_semicolon:
  "clean_sql ''SELECT vin FROM inspections WHERE ramp = 'Chicago';''
     = ''SELECT vin FROM inspections WHERE ramp ILIKE '%Chicago%';''
   \<and> clean_sql ''SELECT vin FROM inspections; SELECT ramp FROM inspections''
     = ''SELECT vin FROM inspections;''
   \<and> clean_sql ''SELECT vin FROM inspections WHERE ramp = 'Chicago' ''
     = ''SELECT vin FROM inspections WHERE ramp ILIKE '%Chicago%' LIMIT 1000;''"
proof -
  have "clean_sql ''SELECT vin FROM inspections WHERE ramp = 'Chicago';''
     = ''SELECT vin FROM inspections WHERE ramp ILIKE '%Chicago%';''"
    by code_simp
  moreover
  have "clean_sql ''SELECT vin FROM inspections; SELECT ramp FROM inspections''
     = ''SELECT vin FROM inspections;''"
    by code_simp
  moreover
  have "clean_sql ''SELECT vin FROM inspections WHERE ramp = 'Chicago' ''
     = ''SELECT vin FROM inspections WHERE ramp ILIKE '%Chicago%' LIMIT 1000;''"
    by code_simp
  ultimately show ?thesis
    by (simp only: simp_thms)
qed

section \<open>The error counter and empty results\<close>

text \<open>
  Claim C6 fails as stated. Four empty-result queries in a row in one session all get the
  tailored suggestion: an empty result raises no exception, so the call resets the counter
  instead of raising it. And after three calls that ended in an exception in session
  \<open>a\<close>, the first query of session \<open>b\<close>, an empty-result one, gets the generic
  fallback message: there is one counter for the chatbot, not one per session.
\<close>

theorem C6_counterexample:
  "responses (replicate 4 (sample_env no_rows, ''list ramps'', Some ''s1'')) VehicleChatbot
     = replicate 4 ''No matching records found. Try being more specific with your criteria.''
   \<and> responses (replicate 3 (sample_env cursor_closed, ''list ramps'', Some ''a'')
                  @ [(sample_env no_rows, ''list ramps'', Some ''b'')]) VehicleChatbot
     = replicate 3 unavailable_message @ [trouble_message]"
proof -
  have "responses (replicate 4 (sample_env no_rows, ''list ramps'', Some ''s1'')) VehicleChatbot
     = replicate 4 ''No matching records found. Try being more specific with your criteria.''"
    by code_simp
  moreover
  have "responses (replicate 3 (sample_env cursor_closed, ''list ramps'', Some ''a'')
                  @ [(sample_env no_rows, ''list ramps'', Some ''b'')]) VehicleChatbot
     = replicate 3 unavailable_message @ [trouble_message]"
    by code_simp
  ultimately show ?thesis
    by (simp only: simp_thms)
qed

text \<open>
  Claim C6 as amended. The chatbot keeps one error counter for all sessions. An
  empty-result answer (the database returned no row, or \<open>None\<close>) is the generic fallback
  message when the counter exceeds 2 at that call, and \<open>No matching records found.\<close>
  with a suggestion otherwise. A call leaves the counter as it was when it is a cache hit
  or a refusal, raises it by one when its pipeline ends in an exception, and resets it to
  zero when its pipeline returns, empty-result answers included.
\<close>

theorem C6_error_counter:
  "fst (handle_empty_results E query sid s)
     = (if error_count s > 2 then trouble_message
        else ''No matching records found. ''
               @ generate_suggestion query
                   (case session_key sid of
                      None \<Rightarrow> []
                    | Some k \<Rightarrow> fst (get_history (now_history E) k 10 (memory s))))
   \<and> (generate_sql E query sm = (Some sql, tr) \<and> sql \<noteq> []
        \<and> (execute_query E sql None = Inr None \<or> execute_query E sql None = Inr (Some []))
      \<longrightarrow> fst (execute_query_flow E query routing sm sid s)
            = Inr (fst (handle_empty_results E query sid s)))
   \<and> error_count (fst (snd (process_query E query sid s)))
     = (case cache_hit query s of
          Some cached \<Rightarrow> error_count s
        | None \<Rightarrow>
            if is_destructive_query query then error_count s
            else (case fst (query_pipeline E query sid s) of
                    Inl e \<Rightarrow> Suc (error_count s)
                  | Inr response \<Rightarrow> 0))"
proof (intro conjI impI)
  show "fst (handle_empty_results E query sid s)
     = (if error_count s > 2 then trouble_message
        else ''No matching records found. ''
               @ generate_suggestion query
                   (case session_key sid of
                      None \<Rightarrow> []
                    | Some k \<Rightarrow> fst (get_history (now_history E) k 10 (memory s))))"
    by (simp add: handle_empty_results_def split: option.splits prod.splits)
next
  assume "generate_sql E query sm = (Some sql, tr) \<and> sql \<noteq> []
        \<and> (execute_query E sql None = Inr None \<or> execute_query E sql None = Inr (Some []))"
  then show "fst (execute_query_flow E query routing sm sid s)
            = Inr (fst (handle_empty_results E query sid s))"
    by (auto simp: execute_query_flow_def split: prod.splits)
next
  show "error_count (fst (snd (process_query E query sid s)))
     = (case cache_hit query s of
          Some cached \<Rightarrow> error_count s
        | None \<Rightarrow>
            if is_destructive_query query then error_count s
            else (case fst (query_pipeline E query sid s) of
                    Inl e \<Rightarrow> Suc (error_count s)
                  | Inr response \<Rightarrow> 0))"
    by (rule process_query_error_count)
qed

theorem C6_error_counter_witness:
  "error_count (run (replicate 3 (sample_env cursor_closed, ''list ramps'', Some ''a''))
                  VehicleChatbot) = 3
   \<and> generate_sql (sample_env no_rows) ''list ramps'' None
       = (Some ''SELECT ramp FROM inspections LIMIT 1000;'',
          [LLMCall (SqlRequest ''list ramps'' None)])
   \<and> execute_query (sample_env no_rows) ''SELECT ramp FROM inspections LIMIT 1000;'' None
       = Inr (Some [])
   \<and> fst (execute_query_flow (sample_env no_rows) ''list ramps'' fallback_route None (Some ''b'')
            (run (replicate 3 (sample_env cursor_closed, ''list ramps'', Some ''a''))
               VehicleChatbot))
       = Inr trouble_message
   \<and> error_count (fst (snd (process_query (sample_env no_rows) ''list ramps'' (Some ''b'')
            (run (replicate 3 (sample_env cursor_closed, ''list ramps'', Some ''a''))
               VehicleChatbot)))) = 0"
proof -
  let ?s = "run (replicate 3 (sample_env cursor_closed, ''list ramps'', Some ''a''))
              VehicleChatbot"
  let ?sql = "''SELECT ramp FROM inspections LIMIT 1000;''"
  have count: "error_count ?s = 3"
    by code_simp
  have gen: "generate_sql (sample_env no_rows) ''list ramps'' None
               = (Some ?sql, [LLMCall (SqlRequest ''list ramps'' None)])"
    by code_simp
  have nonempty: "?sql \<noteq> []"
    by simp
  have rows: "execute_query (sample_env no_rows) ?sql None = Inr (Some [])"
    by code_simp
  have miss: "cache_hit ''list ramps'' ?s = None"
    by code_simp
  have harmless: "\<not> is_destructive_query ''list ramps''"
    by code_simp
  have returns: "fst (query_pipeline (sample_env no_rows) ''list ramps'' (Some ''b'') ?s)
                   = Inr trouble_message"
    by code_simp
  note amended = C6_error_counter [of "sample_env no_rows" "''list ramps''" "Some ''b''" ?s
      None ?sql "[LLMCall (SqlRequest ''list ramps'' None)]" fallback_route]
  from amended count have "fst (handle_empty_results (sample_env no_rows) ''list ramps''
                                  (Some ''b'') ?s) = trouble_message"
    by simp
  moreover from amended gen nonempty rows
  have "fst (execute_query_flow (sample_env no_rows) ''list ramps'' fallback_route None
               (Some ''b'') ?s)
          = Inr (fst (handle_empty_results (sample_env no_rows) ''list ramps'' (Some ''b'') ?s))"
    by blast
  ultimately have flow: "fst (execute_query_flow (sample_env no_rows) ''list ramps''
                                fallback_route None (Some ''b'') ?s) = Inr trouble_message"
    by simp
  from amended miss harmless returns
  have "error_count (fst (snd (process_query (sample_env no_rows) ''list ramps'' (Some ''b'')
                                 ?s))) = 0"
    by simp
  with count gen rows flow show ?thesis
    by (simp only: simp_thms)
qed

section \<open>What is written, and when\<close>











section \<open>Enrichment\<close>

text \<open>
  Claim C9 fails as stated. For the two damage descriptions \<open>Dent - door\<close> and
  \<open>dent-hood\<close> the summary's damage category is \<open>dent\<close> with count 2: the code strips
  the white space around the segment before it lowercases it. In the words of the claim
  the two categories are \<open>dent \<close> (with the blank) and \<open>dent\<close>, each of count 1.
\<close>

theorem C9_counterexample:
  "enrich_results dented None = Inr (Enrichment [] (''dent'', 2) (''unknown'', 0) 2)
   \<and> map spec_category (text_values ''damage_descriptions'' dented) = [''dent '', ''dent'']
   \<and> count_list (map spec_category (text_values ''damage_descriptions'' dented)) ''dent'' = 1"
proof -
  have "enrich_results dented None = Inr (Enrichment [] (''dent'', 2) (''unknown'', 0) 2)"
    by code_simp
  moreover
  have "map spec_category (text_values ''damage_descriptions'' dented) = [''dent '', ''dent'']"
    by code_simp
  moreover
  have "count_list (map spec_category (text_values ''damage_descriptions'' dented)) ''dent'' = 1"
    by code_simp
  ultimately show ?thesis
    by (simp only: simp_thms)
qed

text \<open>
  Claim C9 as amended. For the empty result set the enrichment is empty. For a result set
  that is not empty and holds a text or \<open>NULL\<close> in the three fields it reads,
  \<open>_enrich_results\<close> returns a summary with: the first three, in sorted order, of the
  distinct source files of the rows (so at most 3, distinct, drawn from the rows); a most
  frequent damage category with its count, the category of a row being the segment of its
  damage description before the first \<open>-\<close>, stripped of surrounding white space and
  lowercased, or \<open>none\<close> with 0 when no row has a damage description; a most frequent
  lowercased inspector name with its count, or \<open>unknown\<close> with 0 when no row has one; and
  the number of rows.
\<close>

theorem C9_enrichment:
  assumes "results \<noteq> []" and "text_fields results"
  shows "enrich_results [] semantic_matches = Inr NoEnrichment
       \<and> (\<exists>files damage inspector.
             enrich_results results semantic_matches
               = Inr (Enrichment files damage inspector (length results))
           \<and> files = take 3 (map SStr (sort (remdups (map str_of (file_values results)))))
           \<and> distinct files \<and> length files \<le> 3 \<and> set files \<subseteq> set (file_values results)
           \<and> top_of (categories results) (''none'', 0) damage
           \<and> top_of (inspector_keys results) (''unknown'', 0) inspector)"
proof -
  let ?t0 = "\<lparr>seen_files = [], damage_types = [], inspectors = []\<rparr>"
  from tally_all_text [OF assms(2), of ?t0] obtain t where t:
    "tally_all results ?t0 = Inr t"
    "set (seen_files t) = set (file_values results)"
    "distinct (seen_files t)"
    "damage_types t = fold bump (categories results) []"
    "inspectors t = fold bump (inspector_keys results) []"
    by auto
  have texts: "\<forall>v\<in>set (seen_files t). is_str v"
    using t(2) file_values_text [OF assms(2)] by blast
  let ?sorted = "map SStr (sort (remdups (map str_of (seen_files t))))"
  have sorted: "py_sorted (seen_files t) = Inr ?sorted"
    using texts t(3) by (rule py_sorted_texts)
  have same: "sort (remdups (map str_of (seen_files t)))
                = sort (remdups (map str_of (file_values results)))"
  proof (rule sorted_distinct_set_unique)
    show "set (sort (remdups (map str_of (seen_files t))))
            = set (sort (remdups (map str_of (file_values results))))"
      using t(2) by simp
  qed simp_all
  let ?files = "take 3 (map SStr (sort (remdups (map str_of (file_values results)))))"
  have d: "distinct ?files"
    by (rule distinct_take) (simp add: distinct_map inj_on_def)
  have sub: "set ?files \<subseteq> set (file_values results)"
  proof
    fix v
    assume "v \<in> set ?files"
    then have "v \<in> set (map SStr (sort (remdups (map str_of (file_values results)))))"
      by (rule in_set_takeD)
    then obtain w where w: "w \<in> set (file_values results)" "v = SStr (str_of w)"
      by auto
    with file_values_text [OF assms(2)] show "v \<in> set (file_values results)"
      by (simp add: SStr_str_of)
  qed
  have damage: "top_of (categories results) (''none'', 0)
                  (max_by_count (damage_types t) (''none'', 0))"
    unfolding t(4) using counts_ok_fold [OF counts_ok_empty, of "categories results"]
    by (simp add: top_of_counts)
  have inspector: "top_of (inspector_keys results) (''unknown'', 0)
                     (max_by_count (inspectors t) (''unknown'', 0))"
    unfolding t(5) using counts_ok_fold [OF counts_ok_empty, of "inspector_keys results"]
    by (simp add: top_of_counts)
  have "enrich_results results semantic_matches
          = Inr (Enrichment ?files (max_by_count (damage_types t) (''none'', 0))
                   (max_by_count (inspectors t) (''unknown'', 0)) (length results))"
    using assms(1) t(1) sorted same by (simp add: enrich_results_def)
  moreover have "enrich_results [] semantic_matches = Inr NoEnrichment"
    by (simp add: enrich_results_def)
  ultimately show ?thesis
    using d sub damage inspector by auto
qed

theorem C9_enrichment_witness:
  "inspected \<noteq> []
   \<and> text_fields inspected
   \<and> enrich_results inspected None
       = Inr (Enrichment [SStr ''a.pdf'', SStr ''b.pdf''] (''hood'', 2) (''bryan'', 2) 3)
   \<and> top_of (categories inspected) (''none'', 0) (''hood'', 2)
   \<and> top_of (inspector_keys inspected) (''unknown'', 0) (''bryan'', 2)"
proof -
  have nonempty: "inspected \<noteq> []"
    by (simp add: inspected_def)
  have texts: "text_fields inspected"
    by code_simp
  have summary: "enrich_results inspected None
       = Inr (Enrichment [SStr ''a.pdf'', SStr ''b.pdf''] (''hood'', 2) (''bryan'', 2) 3)"
    by code_simp
  from C9_enrichment [OF nonempty texts, of None] obtain files damage inspector where
    "enrich_results inspected None = Inr (Enrichment files damage inspector (length inspected))"
    "top_of (categories inspected) (''none'', 0) damage"
    "top_of (inspector_keys inspected) (''unknown'', 0) inspector"
    by blast
  with summary have "top_of (categories inspected) (''none'', 0) (''hood'', 2)"
    and "top_of (inspector_keys inspected) (''unknown'', 0) (''bryan'', 2)"
    by simp_all
  with nonempty texts summary show ?thesis
    by (simp only: simp_thms)
qed

end
